theory Spec2Isabelle
  imports Complex_Main "HOL-Library.Multiset"
begin

section \<open>The label-text interpreter of the grocery tracker\<close>

text \<open>
  A shallow embedding of the OCR utilities of \<^verbatim>\<open>src/src/App.jsx\<close>:
  \<^verbatim>\<open>extractDates\<close>, \<^verbatim>\<open>parseDate\<close>, \<^verbatim>\<open>isLikelyExpiryDate\<close>,
  \<^verbatim>\<open>extractItemNames\<close>, \<^verbatim>\<open>processOCRText\<close> and \<^verbatim>\<open>validateExtractedItem\<close>.

  Conventions of the embedding.
  \<^item> A JavaScript string is a \<open>string\<close> of ASCII characters. On ASCII text
    \<^verbatim>\<open>toLowerCase\<close>, \<^verbatim>\<open>toUpperCase\<close>, \<^verbatim>\<open>trim\<close>, \<^verbatim>\<open>\s\<close>, \<^verbatim>\<open>\d\<close> and \<^verbatim>\<open>[a-z]\<close> are the
    functions below; text outside ASCII is outside the embedding.
  \<^item> A JavaScript number is an exact rational (\<open>rat\<close>), a time value an \<open>int\<close> of
    milliseconds since the epoch. The confidences that occur (0.25, 0.3, 0.4, 0.45, 0.5,
    0.7, 0.8, 0.9, 1 and 1.1) compare with 0 and 1 as their IEEE doubles do.
  \<^item> Everything the code reads from its host is a field of the environment \<open>env\<close>:
    the clock, the offset of local time, the draws of \<^verbatim>\<open>Math.random\<close> and the
    implementation-defined part of \<^verbatim>\<open>Date.parse\<close>.
  \<^item> An exception is a value of type \<open>error\<close>; a computation that may raise has a
    result of type \<open>error + 'a\<close>.
  \<^item> The functions of date-fns (\<^verbatim>\<open>parse\<close>, \<^verbatim>\<open>format\<close>, \<^verbatim>\<open>isValid\<close>, \<^verbatim>\<open>addDays\<close>) and of the
    language (\<^verbatim>\<open>Date\<close>, regular expressions, \<^verbatim>\<open>Array.prototype.sort\<close>) are library code;
    they are modelled as far as the code above uses them.
\<close>

subsection \<open>Characters and strings\<close>

definition is_digit :: "char \<Rightarrow> bool" where
  "is_digit c = (c \<in> set ''0123456789'')"

definition is_lower :: "char \<Rightarrow> bool" where
  "is_lower c = (c \<in> set ''abcdefghijklmnopqrstuvwxyz'')"

definition is_upper :: "char \<Rightarrow> bool" where
  "is_upper c = (c \<in> set ''ABCDEFGHIJKLMNOPQRSTUVWXYZ'')"

definition is_letter :: "char \<Rightarrow> bool" where
  "is_letter c = (is_lower c \<or> is_upper c)"

text \<open>\<^verbatim>\<open>\s\<close> on ASCII: tab, line feed, vertical tab, form feed, carriage return, space.\<close>

definition is_space :: "char \<Rightarrow> bool" where
  "is_space c = (c \<in> set [CHR 0x09, CHR 0x0A, CHR 0x0B, CHR 0x0C, CHR 0x0D, CHR '' ''])"

definition is_sep :: "char \<Rightarrow> bool" where
  "is_sep c = (c = CHR ''/'' \<or> c = CHR ''-'')"

definition is_comma :: "char \<Rightarrow> bool" where
  "is_comma c = (c = CHR '','')"

definition toLowerChar :: "char \<Rightarrow> char" where
  "toLowerChar c =
     (case map_of (zip ''ABCDEFGHIJKLMNOPQRSTUVWXYZ'' ''abcdefghijklmnopqrstuvwxyz'') c of
        Some l \<Rightarrow> l | None \<Rightarrow> c)"

definition toUpperChar :: "char \<Rightarrow> char" where
  "toUpperChar c =
     (case map_of (zip ''abcdefghijklmnopqrstuvwxyz'' ''ABCDEFGHIJKLMNOPQRSTUVWXYZ'') c of
        Some u \<Rightarrow> u | None \<Rightarrow> c)"

definition toLowerCase :: "string \<Rightarrow> string" where
  "toLowerCase s = map toLowerChar s"

definition toUpperCase :: "string \<Rightarrow> string" where
  "toUpperCase s = map toUpperChar s"

definition trim :: "string \<Rightarrow> string" where
  "trim s = rev (dropWhile is_space (rev (dropWhile is_space s)))"

text \<open>\<^verbatim>\<open>s.substring(a, b)\<close>: both ends are clamped to the length and swapped when out of order.\<close>

definition substring :: "string \<Rightarrow> nat \<Rightarrow> nat \<Rightarrow> string" where
  "substring s a b =
     (let a' = min a (length s); b' = min b (length s)
      in take (max a' b' - min a' b') (drop (min a' b') s))"

fun startsWith :: "string \<Rightarrow> string \<Rightarrow> bool" where
  "startsWith s [] = True"
| "startsWith [] (c # cs) = False"
| "startsWith (x # xs) (c # cs) = (x = c \<and> startsWith xs cs)"

text \<open>\<^verbatim>\<open>s.includes(sub)\<close>.\<close>

fun str_includes :: "string \<Rightarrow> string \<Rightarrow> bool" where
  "str_includes [] sub = (sub = [])"
| "str_includes (x # xs) sub = (startsWith (x # xs) sub \<or> str_includes xs sub)"

text \<open>
  \<^verbatim>\<open>s.split(/\s+/)\<close>: the pieces between the maximal runs of white space; a run at either
  end of the string leaves an empty piece there, and the empty string splits into one
  empty piece.
\<close>

fun split_ws :: "string \<Rightarrow> string list" where
  "split_ws [] = [[]]"
| "split_ws (c # cs) =
     (if is_space c then
        (case cs of
           [] \<Rightarrow> [] # split_ws cs
         | c' # _ \<Rightarrow> if is_space c' then split_ws cs else [] # split_ws cs)
      else
        (case split_ws cs of
           [] \<Rightarrow> [[c]]
         | w # ws \<Rightarrow> (c # w) # ws))"

text \<open>\<^verbatim>\<open>s.split('\n')\<close>.\<close>

fun split_lines :: "string \<Rightarrow> string list" where
  "split_lines [] = [[]]"
| "split_lines (c # cs) =
     (if c = CHR 0x0A then [] # split_lines cs
      else (case split_lines cs of
              [] \<Rightarrow> [[c]]
            | l # ls \<Rightarrow> (c # l) # ls))"

text \<open>\<^verbatim>\<open>w.charAt(0).toUpperCase() + w.slice(1)\<close>.\<close>

definition capitalize :: "string \<Rightarrow> string" where
  "capitalize w = toUpperCase (take 1 w) @ drop 1 w"

subsection \<open>The regular expressions of \<^verbatim>\<open>DATE_PATTERNS\<close>\<close>

text \<open>
  The four patterns are sequences of two kinds of atoms: a character class under a greedy
  bounded or unbounded repetition, and an alternation of literal words compared without
  regard to case. \<open>match_atoms\<close> is the backtracking matcher of such a sequence at the start
  of a string: a repetition first takes as many characters as it can and gives them back one
  at a time, an alternation tries its words from left to right. The result is the rest of
  the string after the match.
\<close>

datatype atom =
    Rep "char \<Rightarrow> bool" nat "nat option"
  | OneOf "string list"

fun first_some :: "('a \<Rightarrow> 'b option) \<Rightarrow> 'a list \<Rightarrow> 'b option" where
  "first_some f [] = None"
| "first_some f (x # xs) = (case f x of Some y \<Rightarrow> Some y | None \<Rightarrow> first_some f xs)"

definition rep_count :: "(char \<Rightarrow> bool) \<Rightarrow> nat option \<Rightarrow> string \<Rightarrow> nat" where
  "rep_count cls hi s =
     length (takeWhile cls (case hi of None \<Rightarrow> s | Some h \<Rightarrow> take h s))"

fun countdown :: "nat \<Rightarrow> nat \<Rightarrow> nat list" where
  "countdown lo 0 = (if lo = 0 then [0] else [])"
| "countdown lo (Suc k) = (if lo \<le> Suc k then Suc k # countdown lo k else [])"

fun match_atoms :: "atom list \<Rightarrow> string \<Rightarrow> string option" where
  "match_atoms [] s = Some s"
| "match_atoms (Rep cls lo hi # as) s =
     first_some (\<lambda>k. match_atoms as (drop k s)) (countdown lo (rep_count cls hi s))"
| "match_atoms (OneOf ws # as) s =
     first_some (\<lambda>w. if startsWith (toLowerCase s) w then match_atoms as (drop (length w) s)
                      else None) ws"

definition month_prefixes :: "string list" where
  "month_prefixes = [''jan'', ''feb'', ''mar'', ''apr'', ''may'', ''jun'',
                     ''jul'', ''aug'', ''sep'', ''oct'', ''nov'', ''dec'']"

text \<open>
  The patterns, in the order of the source:
  \<^enum> \<^verbatim>\<open>/(\d{1,2})[\/\-](\d{1,2})[\/\-](\d{2,4})/g\<close>
  \<^enum> \<^verbatim>\<open>/(\d{4})[\/\-](\d{1,2})[\/\-](\d{1,2})/g\<close>
  \<^enum> \<^verbatim>\<open>/(Jan|Feb|Mar|Apr|May|Jun|Jul|Aug|Sep|Oct|Nov|Dec)[a-z]*\s+(\d{1,2}),?\s+(\d{4})/gi\<close>
  \<^enum> \<^verbatim>\<open>/(\d{1,2})\s+(Jan|Feb|Mar|Apr|May|Jun|Jul|Aug|Sep|Oct|Nov|Dec)[a-z]*\s+(\d{4})/gi\<close>

  Under the flag \<^verbatim>\<open>i\<close> the class \<^verbatim>\<open>[a-z]\<close> takes the ASCII letters of both cases.
\<close>

definition DATE_PATTERNS :: "atom list list" where
  "DATE_PATTERNS =
    [ [Rep is_digit 1 (Some 2), Rep is_sep 1 (Some 1), Rep is_digit 1 (Some 2),
       Rep is_sep 1 (Some 1), Rep is_digit 2 (Some 4)],
      [Rep is_digit 4 (Some 4), Rep is_sep 1 (Some 1), Rep is_digit 1 (Some 2),
       Rep is_sep 1 (Some 1), Rep is_digit 1 (Some 2)],
      [OneOf month_prefixes, Rep is_letter 0 None, Rep is_space 1 None,
       Rep is_digit 1 (Some 2), Rep is_comma 0 (Some 1), Rep is_space 1 None,
       Rep is_digit 4 (Some 4)],
      [Rep is_digit 1 (Some 2), Rep is_space 1 None, OneOf month_prefixes,
       Rep is_letter 0 None, Rep is_space 1 None, Rep is_digit 4 (Some 4)] ]"

subsection \<open>\<^verbatim>\<open>extractDates\<close>\<close>

record date_match =
  d_text :: string
  d_context :: string
  d_index :: nat

text \<open>
  \<^verbatim>\<open>while ((match = pattern.exec(text)) !== null)\<close> with a global pattern: every call
  finds the leftmost match at or after \<^verbatim>\<open>lastIndex\<close> and moves \<^verbatim>\<open>lastIndex\<close> behind it.
  \<open>exec_all p input i skip rest\<close> walks the text once; \<open>rest\<close> is the text from index \<open>i\<close> on,
  and \<open>skip\<close> counts the characters that still belong to the previous match. (No pattern
  matches the empty string, so a match always moves \<^verbatim>\<open>lastIndex\<close> forward.)
\<close>

fun exec_all :: "atom list \<Rightarrow> string \<Rightarrow> nat \<Rightarrow> nat \<Rightarrow> string \<Rightarrow> date_match list" where
  "exec_all p input i skip [] = []"
| "exec_all p input i skip (c # cs) =
     (if 0 < skip then exec_all p input (Suc i) (skip - 1) cs
      else
        (case match_atoms p (c # cs) of
           None \<Rightarrow> exec_all p input (Suc i) 0 cs
         | Some rest \<Rightarrow>
             (let n = length (c # cs) - length rest
              in \<lparr> d_text = take n (c # cs),
                   d_context = trim (substring input (i - 20) (min (length input) (i + n + 20))),
                   d_index = i \<rparr>
                 # exec_all p input (Suc i) (n - 1) cs)))"

definition extractDates :: "string \<Rightarrow> date_match list" where
  "extractDates text = concat (map (\<lambda>p. exec_all p text 0 0 text) DATE_PATTERNS)"

subsection \<open>Calendar arithmetic\<close>

text \<open>
  The proleptic Gregorian calendar of ECMAScript's \<^verbatim>\<open>Date\<close>: the day number of a civil date
  (days since 1970-01-01) and back. Months count from 1 here.
\<close>

definition days_from_civil :: "int \<Rightarrow> int \<Rightarrow> int \<Rightarrow> int" where
  "days_from_civil y m d =
     (let y' = (if m \<le> 2 then y - 1 else y);
          era = y' div 400;
          yoe = y' - era * 400;
          doy = (153 * (if 2 < m then m - 3 else m + 9) + 2) div 5 + d - 1;
          doe = yoe * 365 + yoe div 4 - yoe div 100 + doy
      in era * 146097 + doe - 719468)"

definition civil_from_days :: "int \<Rightarrow> int \<times> int \<times> int" where
  "civil_from_days z =
     (let z' = z + 719468;
          era = z' div 146097;
          doe = z' - era * 146097;
          yoe = (doe - doe div 1460 + doe div 36524 - doe div 146096) div 365;
          doy = doe - (365 * yoe + yoe div 4 - yoe div 100);
          mp = (5 * doy + 2) div 153;
          d = doy - (153 * mp + 2) div 5 + 1;
          m = (if mp < 10 then mp + 3 else mp - 9);
          y = yoe + era * 400
      in (if m \<le> 2 then y + 1 else y, m, d))"

definition isLeapYear :: "int \<Rightarrow> bool" where
  "isLeapYear y = (y mod 400 = 0 \<or> (y mod 4 = 0 \<and> y mod 100 \<noteq> 0))"

definition daysInMonth :: "int \<Rightarrow> int \<Rightarrow> int" where
  "daysInMonth y m =
     (if m = 2 then (if isLeapYear y then 29 else 28)
      else if m = 4 \<or> m = 6 \<or> m = 9 \<or> m = 11 then 30 else 31)"

definition MS_PER_DAY :: int where
  "MS_PER_DAY = 86400000"

subsection \<open>Dates, errors and the environment\<close>

text \<open>A \<^verbatim>\<open>Date\<close> object: a time value in milliseconds since the epoch, or Invalid Date.\<close>

datatype jsdate = Date int | InvalidDate

datatype error = RangeError

text \<open>
  What one call reads from its host.
  \<^item> \<open>now\<close>: the clock, in milliseconds since the epoch. One call is taken to run within one
    tick: every \<^verbatim>\<open>new Date()\<close> and \<^verbatim>\<open>Date.now()\<close> of the call reads \<open>now\<close>.
  \<^item> \<open>tz\<close>: the offset of local time, in minutes east of UTC, taken to be the same for all
    dates (no daylight saving).
  \<^item> \<open>random k\<close>: the result of the \<open>k\<close>-th call of \<^verbatim>\<open>Math.random()\<close>, counting from 0.
  \<^item> \<open>implParse\<close>: what \<^verbatim>\<open>Date.parse\<close> makes of a string that is not a date-only
    ISO string \<^verbatim>\<open>YYYY-MM-DD\<close>; ECMAScript leaves most of it to the implementation.
\<close>

record env =
  now :: int
  tz :: int
  random :: "nat \<Rightarrow> rat"
  implParse :: "string \<Rightarrow> jsdate"

definition isValid :: "jsdate \<Rightarrow> bool" where
  "isValid d = (case d of Date t \<Rightarrow> True | InvalidDate \<Rightarrow> False)"

text \<open>Local midnight of a civil date, as the setters of \<^verbatim>\<open>Date\<close> compute it.\<close>

definition local_midnight :: "env \<Rightarrow> int \<Rightarrow> int \<Rightarrow> int \<Rightarrow> int" where
  "local_midnight e y m d = days_from_civil y m d * MS_PER_DAY - tz e * 60000"

text \<open>The local civil date of a time value.\<close>

definition local_civil :: "env \<Rightarrow> int \<Rightarrow> int \<times> int \<times> int" where
  "local_civil e t = civil_from_days ((t + tz e * 60000) div MS_PER_DAY)"

text \<open>date-fns \<^verbatim>\<open>addDays\<close>: the same local time of day, \<open>n\<close> days later.\<close>

definition addDays :: "jsdate \<Rightarrow> int \<Rightarrow> jsdate" where
  "addDays d n = (case d of Date t \<Rightarrow> Date (t + n * MS_PER_DAY) | InvalidDate \<Rightarrow> InvalidDate)"

subsection \<open>Decimal digits\<close>

definition digit_char :: "nat \<Rightarrow> char" where
  "digit_char n = ''0123456789'' ! (n mod 10)"

fun show_nat :: "nat \<Rightarrow> string" where
  "show_nat n = (if n < 10 then [digit_char n] else show_nat (n div 10) @ [digit_char n])"

text \<open>date-fns \<^verbatim>\<open>addLeadingZeros\<close> on a number that is not negative.\<close>

definition addLeadingZeros :: "nat \<Rightarrow> nat \<Rightarrow> string" where
  "addLeadingZeros n targetLength =
     replicate (targetLength - length (show_nat n)) (CHR ''0'') @ show_nat n"

definition digit_val :: "char \<Rightarrow> nat" where
  "digit_val c = (of_char c :: nat) - 48"

text \<open>\<^verbatim>\<open>parseInt(s, 10)\<close> on a string of digits.\<close>

definition parseInt :: "string \<Rightarrow> nat" where
  "parseInt s = foldl (\<lambda>acc c. acc * 10 + digit_val c) 0 s"

subsection \<open>date-fns \<^verbatim>\<open>format(date, 'yyyy-MM-dd')\<close>\<close>

text \<open>
  The local year (a year that is not positive is printed as \<open>1 - year\<close>), month and day,
  padded with zeros. \<^verbatim>\<open>format\<close> raises \<^verbatim>\<open>RangeError\<close> on Invalid Date.
\<close>

definition format_ymd :: "env \<Rightarrow> int \<Rightarrow> string" where
  "format_ymd e t =
     (case local_civil e t of
        (y, m, d) \<Rightarrow>
          addLeadingZeros (nat (if 0 < y then y else 1 - y)) 4 @ ''-'' @
          addLeadingZeros (nat m) 2 @ ''-'' @ addLeadingZeros (nat d) 2)"

definition format_date :: "env \<Rightarrow> jsdate \<Rightarrow> error + string" where
  "format_date e d = (case d of Date t \<Rightarrow> Inr (format_ymd e t) | InvalidDate \<Rightarrow> Inl RangeError)"

subsection \<open>\<^verbatim>\<open>new Date(string)\<close>\<close>

text \<open>
  A date-only ISO string with a month from 01 to 12 and a day of that month is midnight UTC
  of that date. Every other string is left to \<open>implParse\<close>.
\<close>

definition iso_date_only :: "string \<Rightarrow> (int \<times> int \<times> int) option" where
  "iso_date_only s =
     (if length s = 10 \<and> list_all is_digit (take 4 s) \<and> s ! 4 = CHR ''-'' \<and>
         list_all is_digit (take 2 (drop 5 s)) \<and> s ! 7 = CHR ''-'' \<and>
         list_all is_digit (drop 8 s)
      then
        (let y = int (parseInt (take 4 s)); m = int (parseInt (take 2 (drop 5 s)));
             d = int (parseInt (drop 8 s))
         in if 1 \<le> m \<and> m \<le> 12 \<and> 1 \<le> d \<and> d \<le> daysInMonth y m then Some (y, m, d) else None)
      else None)"

definition newDate :: "env \<Rightarrow> string \<Rightarrow> jsdate" where
  "newDate e s =
     (case iso_date_only s of
        Some (y, m, d) \<Rightarrow> Date (days_from_civil y m d * MS_PER_DAY)
      | None \<Rightarrow> implParse e s)"

subsection \<open>date-fns \<^verbatim>\<open>parse(dateString, formatString, new Date())\<close>\<close>

text \<open>
  The model of the library function for the twelve format strings of \<^verbatim>\<open>parseDate\<close>. A
  format string is cut into tokens; every token takes a piece from the front of the input
  or makes the result Invalid Date; what is left of the input must be white space; then
  year, month and day are validated and set, in this order. The result is local midnight
  of the date, or Invalid Date. (The library raises only on a malformed format string,
  which none of the twelve is: the \<^verbatim>\<open>catch\<close> of \<^verbatim>\<open>parseDate\<close> is never entered.)

  The tokens:
  \<^item> \<^verbatim>\<open>MM\<close>, \<^verbatim>\<open>dd\<close>: one or two digits (\<^verbatim>\<open>/^\d{1,2}/\<close>); \<^verbatim>\<open>yyyy\<close>: one to four digits;
    \<^verbatim>\<open>yy\<close>: one or two digits, read as a two-digit year;
  \<^item> \<^verbatim>\<open>M\<close>: \<^verbatim>\<open>/^(1[0-2]|0?\d)/\<close>; \<^verbatim>\<open>d\<close>: \<^verbatim>\<open>/^(3[0-1]|[0-2]?\d)/\<close>;
  \<^item> \<^verbatim>\<open>MMM\<close>: an abbreviated month name, else a single letter of \<^verbatim>\<open>jfmasond\<close>;
    \<^verbatim>\<open>MMMM\<close>: a full month name, else as \<^verbatim>\<open>MMM\<close>; without regard to case;
  \<^item> any other character stands for itself.
\<close>

datatype fmt_token = T_M | T_MM | T_MMM | T_MMMM | T_d | T_dd | T_yy | T_yyyy | T_lit char

record parsed_fields =
  p_year :: "(nat \<times> bool) option"
  p_month :: "int option"
  p_day :: "nat option"

definition match_first :: "atom list list \<Rightarrow> string \<Rightarrow> (string \<times> string) option" where
  "match_first ps s =
     (case first_some (\<lambda>p. match_atoms p s) ps of
        None \<Rightarrow> None
      | Some rest \<Rightarrow> Some (take (length s - length rest) s, rest))"

definition parseNumericPattern :: "atom list list \<Rightarrow> string \<Rightarrow> (nat \<times> string) option" where
  "parseNumericPattern ps s =
     (case match_first ps s of
        None \<Rightarrow> None
      | Some (m, rest) \<Rightarrow> Some (parseInt m, rest))"

definition parseNDigits :: "nat \<Rightarrow> string \<Rightarrow> (nat \<times> string) option" where
  "parseNDigits n s = parseNumericPattern [[Rep is_digit 1 (Some n)]] s"

definition numeric_month :: "atom list list" where
  "numeric_month =
     [[Rep (\<lambda>c. c = CHR ''1'') 1 (Some 1), Rep (\<lambda>c. c \<in> set ''012'') 1 (Some 1)],
      [Rep (\<lambda>c. c = CHR ''0'') 0 (Some 1), Rep is_digit 1 (Some 1)]]"

definition numeric_date :: "atom list list" where
  "numeric_date =
     [[Rep (\<lambda>c. c = CHR ''3'') 1 (Some 1), Rep (\<lambda>c. c \<in> set ''01'') 1 (Some 1)],
      [Rep (\<lambda>c. c \<in> set ''012'') 0 (Some 1), Rep is_digit 1 (Some 1)]]"

definition month_names :: "string list" where
  "month_names = [''january'', ''february'', ''march'', ''april'', ''may'', ''june'', ''july'',
                  ''august'', ''september'', ''october'', ''november'', ''december'']"

text \<open>The month index (from 0) of the first name that starts the input, and the rest.\<close>

fun match_name :: "string list \<Rightarrow> nat \<Rightarrow> string \<Rightarrow> (int \<times> string) option" where
  "match_name [] i s = None"
| "match_name (n # ns) i s =
     (if startsWith (toLowerCase s) n then Some (int i, drop (length n) s)
      else match_name ns (Suc i) s)"

text \<open>
  A single letter: the first of \<^verbatim>\<open>[/^j/i, /^f/i, /^m/i, /^a/i, /^m/i, /^j/i, /^j/i, /^a/i,
  /^s/i, /^o/i, /^n/i, /^d/i]\<close> that matches gives the index.
\<close>

definition match_narrow :: "string \<Rightarrow> (int \<times> string) option" where
  "match_narrow s =
     (case s of
        [] \<Rightarrow> None
      | c # rest \<Rightarrow>
          (case map_of [(CHR ''j'', 0), (CHR ''f'', 1), (CHR ''m'', 2), (CHR ''a'', 3),
                        (CHR ''s'', 8), (CHR ''o'', 9), (CHR ''n'', 10), (CHR ''d'', 11)]
                  (toLowerChar c) of
             None \<Rightarrow> None
           | Some i \<Rightarrow> Some (i, rest)))"

definition or_else :: "'a option \<Rightarrow> 'a option \<Rightarrow> 'a option" where
  "or_else a b = (case a of Some x \<Rightarrow> Some x | None \<Rightarrow> b)"

fun run_token :: "fmt_token \<Rightarrow> string \<Rightarrow> parsed_fields \<Rightarrow> (parsed_fields \<times> string) option" where
  "run_token T_MM s p =
     map_option (\<lambda>(v, rest). (p\<lparr>p_month := Some (int v - 1)\<rparr>, rest)) (parseNDigits 2 s)"
| "run_token T_M s p =
     map_option (\<lambda>(v, rest). (p\<lparr>p_month := Some (int v - 1)\<rparr>, rest))
       (parseNumericPattern numeric_month s)"
| "run_token T_MMM s p =
     map_option (\<lambda>(v, rest). (p\<lparr>p_month := Some v\<rparr>, rest))
       (or_else (match_name month_prefixes 0 s) (match_narrow s))"
| "run_token T_MMMM s p =
     map_option (\<lambda>(v, rest). (p\<lparr>p_month := Some v\<rparr>, rest))
       (or_else (match_name month_names 0 s)
          (or_else (match_name month_prefixes 0 s) (match_narrow s)))"
| "run_token T_dd s p =
     map_option (\<lambda>(v, rest). (p\<lparr>p_day := Some v\<rparr>, rest)) (parseNDigits 2 s)"
| "run_token T_d s p =
     map_option (\<lambda>(v, rest). (p\<lparr>p_day := Some v\<rparr>, rest))
       (parseNumericPattern numeric_date s)"
| "run_token T_yyyy s p =
     map_option (\<lambda>(v, rest). (p\<lparr>p_year := Some (v, False)\<rparr>, rest)) (parseNDigits 4 s)"
| "run_token T_yy s p =
     map_option (\<lambda>(v, rest). (p\<lparr>p_year := Some (v, True)\<rparr>, rest)) (parseNDigits 2 s)"
| "run_token (T_lit c) s p =
     (case s of [] \<Rightarrow> None | x # rest \<Rightarrow> if x = c then Some (p, rest) else None)"

fun run_tokens :: "fmt_token list \<Rightarrow> string \<Rightarrow> parsed_fields \<Rightarrow> (parsed_fields \<times> string) option" where
  "run_tokens [] s p = Some (p, s)"
| "run_tokens (t # ts) s p =
     (case run_token t s p of
        None \<Rightarrow> None
      | Some (p', rest) \<Rightarrow> run_tokens ts rest p')"

definition normalizeTwoDigitYear :: "int \<Rightarrow> int \<Rightarrow> int" where
  "normalizeTwoDigitYear twoDigitYear currentYear =
     (let isCommonEra = (0 < currentYear);
          absCurrentYear = (if isCommonEra then currentYear else 1 - currentYear);
          result =
            (if absCurrentYear \<le> 50 then (if twoDigitYear = 0 then 100 else twoDigitYear)
             else
               (let rangeEnd = absCurrentYear + 50;
                    rangeEndCentury = (rangeEnd div 100) * 100;
                    isPreviousCentury = (rangeEnd mod 100 \<le> twoDigitYear)
                in twoDigitYear + rangeEndCentury - (if isPreviousCentury then 100 else 0)))
      in if isCommonEra then result else 1 - result)"

text \<open>
  The setters, by priority: the year (valid when it is a two-digit year or positive), the
  month (valid from 0 to 11), the day (valid from 1 to the length of the month in that
  year). Each of the twelve formats carries all three fields.
\<close>

definition set_fields :: "env \<Rightarrow> parsed_fields \<Rightarrow> jsdate" where
  "set_fields e p =
     (case (p_year p, p_month p, p_day p) of
        (Some (y, twoDigit), Some m, Some d) \<Rightarrow>
          (if \<not> (twoDigit \<or> 0 < y) then InvalidDate
           else
             (let year = (if twoDigit
                          then normalizeTwoDigitYear (int y) (fst (local_civil e (now e)))
                          else int y)
              in if \<not> (0 \<le> m \<and> m \<le> 11) then InvalidDate
                 else if \<not> (1 \<le> d \<and> int d \<le> daysInMonth year (m + 1)) then InvalidDate
                 else Date (local_midnight e year (m + 1) (int d))))
      | _ \<Rightarrow> InvalidDate)"

definition dfns_parse :: "env \<Rightarrow> string \<Rightarrow> fmt_token list \<Rightarrow> jsdate" where
  "dfns_parse e dateString tokens =
     (case run_tokens tokens dateString \<lparr>p_year = None, p_month = None, p_day = None\<rparr> of
        None \<Rightarrow> InvalidDate
      | Some (p, rest) \<Rightarrow> if list_ex (\<lambda>c. \<not> is_space c) rest then InvalidDate else set_fields e p)"

subsection \<open>\<^verbatim>\<open>parseDate\<close>\<close>

text \<open>
  The formats, in the order of the source: \<^verbatim>\<open>'MM/dd/yyyy'\<close>, \<^verbatim>\<open>'MM/dd/yy'\<close>,
  \<^verbatim>\<open>'M/d/yyyy'\<close>, \<^verbatim>\<open>'M/d/yy'\<close>, \<^verbatim>\<open>'yyyy-MM-dd'\<close>, \<^verbatim>\<open>'yyyy/MM/dd'\<close>, \<^verbatim>\<open>'MMM dd yyyy'\<close>,
  \<^verbatim>\<open>'MMM dd, yyyy'\<close>, \<^verbatim>\<open>'MMMM dd yyyy'\<close>, \<^verbatim>\<open>'MMMM dd, yyyy'\<close>, \<^verbatim>\<open>'dd MMM yyyy'\<close>,
  \<^verbatim>\<open>'dd MMMM yyyy'\<close>.
\<close>

definition formats :: "fmt_token list list" where
  "formats =
    [ [T_MM, T_lit (CHR ''/''), T_dd, T_lit (CHR ''/''), T_yyyy],
      [T_MM, T_lit (CHR ''/''), T_dd, T_lit (CHR ''/''), T_yy],
      [T_M, T_lit (CHR ''/''), T_d, T_lit (CHR ''/''), T_yyyy],
      [T_M, T_lit (CHR ''/''), T_d, T_lit (CHR ''/''), T_yy],
      [T_yyyy, T_lit (CHR ''-''), T_MM, T_lit (CHR ''-''), T_dd],
      [T_yyyy, T_lit (CHR ''/''), T_MM, T_lit (CHR ''/''), T_dd],
      [T_MMM, T_lit (CHR '' ''), T_dd, T_lit (CHR '' ''), T_yyyy],
      [T_MMM, T_lit (CHR '' ''), T_dd, T_lit (CHR '',''), T_lit (CHR '' ''), T_yyyy],
      [T_MMMM, T_lit (CHR '' ''), T_dd, T_lit (CHR '' ''), T_yyyy],
      [T_MMMM, T_lit (CHR '' ''), T_dd, T_lit (CHR '',''), T_lit (CHR '' ''), T_yyyy],
      [T_dd, T_lit (CHR '' ''), T_MMM, T_lit (CHR '' ''), T_yyyy],
      [T_dd, T_lit (CHR '' ''), T_MMMM, T_lit (CHR '' ''), T_yyyy] ]"

text \<open>
  The first format with a valid result wins; then the native parser; then \<^verbatim>\<open>null\<close>
  (\<open>None\<close>). A date that is returned is valid.
\<close>

definition parseDate :: "env \<Rightarrow> string \<Rightarrow> jsdate option" where
  "parseDate e dateText =
     (let cleanDate = trim dateText
      in case first_some
                (\<lambda>formatStr. let parsed = dfns_parse e cleanDate formatStr
                              in if isValid parsed then Some parsed else None)
                formats of
           Some parsed \<Rightarrow> Some parsed
         | None \<Rightarrow>
             (let nativeDate = newDate e cleanDate
              in if isValid nativeDate then Some nativeDate else None))"

subsection \<open>\<^verbatim>\<open>isLikelyExpiryDate\<close>\<close>

definition EXPIRY_KEYWORDS :: "string list" where
  "EXPIRY_KEYWORDS =
    [''exp'', ''expires'', ''expiry'', ''expiration'',
     ''best by'', ''best before'', ''use by'', ''use before'',
     ''sell by'', ''fresh until'', ''good until'']"

definition isLikelyExpiryDate :: "string \<Rightarrow> bool" where
  "isLikelyExpiryDate ctx =
     (let lowerContext = toLowerCase ctx
      in list_ex (\<lambda>keyword. str_includes lowerContext keyword) EXPIRY_KEYWORDS)"

subsection \<open>\<^verbatim>\<open>extractItemNames\<close>\<close>

record name_cand =
  n_name :: string
  n_confidence :: rat

definition COMMON_ITEMS :: "string list" where
  "COMMON_ITEMS =
    [''milk'', ''bread'', ''eggs'', ''cheese'', ''butter'', ''yogurt'',
     ''chicken'', ''beef'', ''pork'', ''fish'', ''salmon'', ''turkey'',
     ''apples'', ''bananas'', ''oranges'', ''grapes'', ''strawberries'',
     ''lettuce'', ''tomatoes'', ''carrots'', ''onions'', ''potatoes'',
     ''rice'', ''pasta'', ''cereal'', ''juice'', ''water'']"

text \<open>The scan of the whole text: a term counts when some word of the text contains it.\<close>

definition vocabulary_terms_in :: "string \<Rightarrow> string list" where
  "vocabulary_terms_in text =
     (let words = split_ws (toLowerCase text)
      in filter (\<lambda>item. list_ex (\<lambda>word. str_includes word item) words) COMMON_ITEMS)"

definition common_items_in :: "string \<Rightarrow> name_cand list" where
  "common_items_in text =
     map (\<lambda>item. \<lparr> n_name = capitalize item, n_confidence = 8 / 10 \<rparr>)
       (vocabulary_terms_in text)"

text \<open>
  The scan of the date contexts: a word counts when its lower-case letters alone
  (\<^verbatim>\<open>word.replace(/[^a-z]/g, '')\<close>) are a term that has no candidate yet.
\<close>

fun context_words :: "string list \<Rightarrow> name_cand list \<Rightarrow> name_cand list" where
  "context_words [] items = items"
| "context_words (word # ws) items =
     (let cleanWord = filter is_lower word
      in if 2 < length cleanWord \<and> cleanWord \<in> set COMMON_ITEMS
         then (let itemName = capitalize cleanWord
               in if \<not> list_ex (\<lambda>item. n_name item = itemName) items
                  then context_words ws (items @ [\<lparr> n_name = itemName, n_confidence = 9 / 10 \<rparr>])
                  else context_words ws items)
         else context_words ws items)"

fun context_items :: "string list \<Rightarrow> name_cand list \<Rightarrow> name_cand list" where
  "context_items [] items = items"
| "context_items (ctx # ctxs) items =
     context_items ctxs (context_words (split_ws (toLowerCase ctx)) items)"

text \<open>
  The first word of every line that is not blank, when it has more than two letters:
  \<^verbatim>\<open>trimmed.split(/\s+/)[0].replace(/[^a-zA-Z]/g, '')\<close>.
\<close>

definition firstWord_of :: "string \<Rightarrow> string" where
  "firstWord_of trimmed = filter is_letter (case split_ws trimmed of [] \<Rightarrow> [] | w # _ \<Rightarrow> w)"

fun line_items :: "string list \<Rightarrow> name_cand list" where
  "line_items [] = []"
| "line_items (line # ls) =
     (let trimmed = trim line
      in if trimmed \<noteq> []
         then (let firstWord = firstWord_of trimmed
               in if 2 < length firstWord
                  then \<lparr> n_name = toUpperCase (take 1 firstWord) @ toLowerCase (drop 1 firstWord),
                         n_confidence = 5 / 10 \<rparr> # line_items ls
                  else line_items ls)
         else line_items ls)"

definition extractItemNames :: "string \<Rightarrow> string list \<Rightarrow> name_cand list" where
  "extractItemNames text dateContexts =
     (let items = context_items dateContexts (common_items_in text)
      in if items = [] then line_items (split_lines text) else items)"

subsection \<open>JavaScript values\<close>

text \<open>
  The values a caller can pass: \<^verbatim>\<open>undefined\<close>, \<^verbatim>\<open>null\<close>, booleans, finite numbers,
  \<^verbatim>\<open>NaN\<close>, strings, and plain objects as lists of properties.
\<close>

datatype jsval =
    Undefined | Null | Bool bool | Num rat | NaN | Str string | Obj "(string \<times> jsval) list"

definition truthy :: "jsval \<Rightarrow> bool" where
  "truthy v =
     (case v of
        Undefined \<Rightarrow> False | Null \<Rightarrow> False | Bool b \<Rightarrow> b | Num n \<Rightarrow> n \<noteq> 0
      | NaN \<Rightarrow> False | Str s \<Rightarrow> s \<noteq> [] | Obj ps \<Rightarrow> True)"

definition is_string :: "jsval \<Rightarrow> bool" where
  "is_string v = (case v of Str s \<Rightarrow> True | _ \<Rightarrow> False)"

text \<open>\<^verbatim>\<open>v.k\<close> on an object; \<^verbatim>\<open>undefined\<close> when the property is absent.\<close>

definition get_prop :: "jsval \<Rightarrow> string \<Rightarrow> jsval" where
  "get_prop v k =
     (case v of
        Obj ps \<Rightarrow> (case map_of ps k of Some x \<Rightarrow> x | None \<Rightarrow> Undefined)
      | _ \<Rightarrow> Undefined)"

subsection \<open>\<^verbatim>\<open>processOCRText\<close>\<close>

record valid_date = date_match +
  d_date :: jsdate
  d_isExpiry :: bool

record grocery_item =
  item_id :: jsval
  item_name :: string
  expiryDate :: string
  addedDate :: string
  confidence :: rat

text \<open>
  \<^verbatim>\<open>Array.prototype.sort\<close> with a comparator: the sort is stable, and a comparator result
  \<^verbatim>\<open>NaN\<close> (\<open>None\<close>) counts as 0. Elements are inserted from the right, each before the first
  element it does not come after. For a consistent comparator this is the one order the
  language allows; for another comparator (one that returns \<^verbatim>\<open>NaN\<close> for some pairs only) the
  language leaves the order to the implementation, and this is one such order.
\<close>

fun insert_sorted :: "('a \<Rightarrow> 'a \<Rightarrow> int option) \<Rightarrow> 'a \<Rightarrow> 'a list \<Rightarrow> 'a list" where
  "insert_sorted cmp x [] = [x]"
| "insert_sorted cmp x (y # ys) =
     (if (case cmp x y of Some v \<Rightarrow> v \<le> 0 | None \<Rightarrow> True) then x # y # ys
      else y # insert_sorted cmp x ys)"

definition js_sort :: "('a \<Rightarrow> 'a \<Rightarrow> int option) \<Rightarrow> 'a list \<Rightarrow> 'a list" where
  "js_sort cmp xs = foldr (insert_sorted cmp) xs []"

definition getTime :: "jsdate \<Rightarrow> int option" where
  "getTime d = (case d of Date t \<Rightarrow> Some t | InvalidDate \<Rightarrow> None)"

text \<open>The dates that parse, each with its date and its expiry flag.\<close>

definition parsed_dates :: "env \<Rightarrow> date_match list \<Rightarrow> valid_date list" where
  "parsed_dates e extractedDates =
     List.map_filter
       (\<lambda>dateInfo.
          case parseDate e (d_text dateInfo) of
            None \<Rightarrow> None
          | Some d \<Rightarrow>
              Some \<lparr> d_text = d_text dateInfo, d_context = d_context dateInfo,
                     d_index = d_index dateInfo, d_date = d,
                     d_isExpiry = isLikelyExpiryDate (d_context dateInfo) \<rparr>)
       extractedDates"

text \<open>Dates with the expiry flag first; among equals, the dates closer to today first.\<close>

definition compare_dates :: "int \<Rightarrow> valid_date \<Rightarrow> valid_date \<Rightarrow> int option" where
  "compare_dates today a b =
     (if d_isExpiry a \<noteq> d_isExpiry b
      then Some (of_bool (d_isExpiry b) - of_bool (d_isExpiry a))
      else (case (getTime (d_date a), getTime (d_date b)) of
              (Some ta, Some tb) \<Rightarrow> Some (\<bar>ta - today\<bar> - \<bar>tb - today\<bar>)
            | _ \<Rightarrow> None))"

definition validDates_of :: "env \<Rightarrow> string \<Rightarrow> valid_date list" where
  "validDates_of e text = js_sort (compare_dates (now e)) (parsed_dates e (extractDates text))"

definition itemNames_of :: "env \<Rightarrow> string \<Rightarrow> name_cand list" where
  "itemNames_of e text = extractItemNames text (map d_context (validDates_of e text))"

text \<open>
  One output record. \<^verbatim>\<open>format\<close> of the expiry date may raise; \<^verbatim>\<open>new Date()\<close> is always
  a valid date.
\<close>

definition make_item :: "env \<Rightarrow> rat \<Rightarrow> string \<Rightarrow> jsdate \<Rightarrow> rat \<Rightarrow> error + grocery_item" where
  "make_item e idv nm expiry conf =
     (case format_date e expiry of
        Inl err \<Rightarrow> Inl err
      | Inr formatted \<Rightarrow>
          Inr \<lparr> item_id = Num idv, item_name = nm, expiryDate = formatted,
                addedDate = format_ymd e (now e), confidence = conf \<rparr>)"

definition context_matches :: "valid_date \<Rightarrow> name_cand \<Rightarrow> bool" where
  "context_matches dateInfo item =
     (let contextLower = toLowerCase (d_context dateInfo);
          itemNameLower = toLowerCase (n_name item)
      in str_includes contextLower itemNameLower \<or>
         str_includes contextLower (substring itemNameLower 0 4))"

text \<open>\<^verbatim>\<open>validDates.find(...)\<close> together with the \<^verbatim>\<open>indexOf\<close> of what it finds.\<close>

fun find_date :: "nat list \<Rightarrow> name_cand \<Rightarrow> nat \<Rightarrow> valid_date list \<Rightarrow> (nat \<times> valid_date) option" where
  "find_date usedDates item dateIndex [] = None"
| "find_date usedDates item dateIndex (dateInfo # rest) =
     (if dateIndex \<notin> set usedDates \<and> context_matches dateInfo item
      then Some (dateIndex, dateInfo)
      else find_date usedDates item (Suc dateIndex) rest)"

text \<open>
  First pass, over the names in order. The state is \<^verbatim>\<open>usedDates\<close> and \<^verbatim>\<open>processedItems\<close>;
  the \<open>k\<close>-th record that is built takes the \<open>k\<close>-th draw of \<^verbatim>\<open>Math.random()\<close>.
\<close>

fun first_pass ::
  "env \<Rightarrow> valid_date list \<Rightarrow> name_cand list \<Rightarrow> nat list \<times> grocery_item list
     \<Rightarrow> error + (nat list \<times> grocery_item list)" where
  "first_pass e validDates [] st = Inr st"
| "first_pass e validDates (item # rest) (usedDates, processedItems) =
     (case find_date usedDates item 0 validDates of
        None \<Rightarrow> first_pass e validDates rest (usedDates, processedItems)
      | Some (dateIndex, matchingDate) \<Rightarrow>
          (case make_item e (of_int (now e) + random e (length processedItems))
                  (n_name item) (d_date matchingDate)
                  (n_confidence item + (if d_isExpiry matchingDate then 2 / 10 else 0)) of
             Inl err \<Rightarrow> Inl err
           | Inr r \<Rightarrow> first_pass e validDates rest (usedDates @ [dateIndex], processedItems @ [r])))"

text \<open>\<^verbatim>\<open>validDates.filter((_, index) => !usedDates.has(index))\<close>.\<close>

definition remaining_dates :: "nat list \<Rightarrow> valid_date list \<Rightarrow> valid_date list" where
  "remaining_dates usedDates validDates =
     map snd (filter (\<lambda>(index, d). index \<notin> set usedDates) (zip [0..<length validDates] validDates))"

text \<open>Second pass, over \<^verbatim>\<open>remainingItems\<close> with their indices.\<close>

fun second_pass ::
  "env \<Rightarrow> valid_date list \<Rightarrow> nat \<Rightarrow> name_cand list \<Rightarrow> grocery_item list
     \<Rightarrow> error + grocery_item list" where
  "second_pass e remainingDates index [] processedItems = Inr processedItems"
| "second_pass e remainingDates index (item # rest) processedItems =
     (case (if index < length remainingDates
            then make_item e (of_int (now e) + random e (length processedItems) + of_nat index)
                   (n_name item) (d_date (remainingDates ! index)) (n_confidence item)
            else make_item e (of_int (now e) + random e (length processedItems) + of_nat index)
                   (n_name item) (addDays (Date (now e)) 7) (n_confidence item * (5 / 10))) of
        Inl err \<Rightarrow> Inl err
      | Inr r \<Rightarrow> second_pass e remainingDates (Suc index) rest (processedItems @ [r]))"

text \<open>The generic items, over \<^verbatim>\<open>validDates.slice(0, 3)\<close> with their indices.\<close>

fun generic_items ::
  "env \<Rightarrow> nat \<Rightarrow> valid_date list \<Rightarrow> grocery_item list \<Rightarrow> error + grocery_item list" where
  "generic_items e index [] processedItems = Inr processedItems"
| "generic_items e index (dateInfo # rest) processedItems =
     (case make_item e (of_int (now e) + random e (length processedItems) + of_nat index)
             (''Item '' @ show_nat (index + 1)) (d_date dateInfo) (3 / 10) of
        Inl err \<Rightarrow> Inl err
      | Inr r \<Rightarrow> generic_items e (Suc index) rest (processedItems @ [r]))"

text \<open>\<^verbatim>\<open>new Date(a.expiryDate) - new Date(b.expiryDate)\<close>.\<close>

definition compare_items :: "env \<Rightarrow> grocery_item \<Rightarrow> grocery_item \<Rightarrow> int option" where
  "compare_items e a b =
     (case (getTime (newDate e (expiryDate a)), getTime (newDate e (expiryDate b))) of
        (Some ta, Some tb) \<Rightarrow> Some (ta - tb)
      | _ \<Rightarrow> None)"

text \<open>The records after the first and the second pass.\<close>

definition matched_items ::
  "env \<Rightarrow> valid_date list \<Rightarrow> name_cand list \<Rightarrow> error + grocery_item list" where
  "matched_items e validDates itemNames =
     (case first_pass e validDates itemNames ([], []) of
        Inl err \<Rightarrow> Inl err
      | Inr (usedDates, processedItems) \<Rightarrow>
          second_pass e (remaining_dates usedDates validDates) 0
            (drop (length processedItems) itemNames) processedItems)"

text \<open>The body of the \<^verbatim>\<open>try\<close> block.\<close>

definition process_body :: "env \<Rightarrow> string \<Rightarrow> error + grocery_item list" where
  "process_body e text =
     (let validDates = validDates_of e text;
          itemNames = itemNames_of e text
      in case matched_items e validDates itemNames of
           Inl err \<Rightarrow> Inl err
         | Inr processedItems \<Rightarrow>
             (case (if length processedItems = 0 \<and> 0 < length validDates
                    then generic_items e 0 (take 3 validDates) processedItems
                    else Inr processedItems) of
                Inl err \<Rightarrow> Inl err
              | Inr items \<Rightarrow> Inr (js_sort (compare_items e) items)))"

text \<open>
  The guard and the \<^verbatim>\<open>try ... catch\<close> around a body: \<^verbatim>\<open>[]\<close> for a value that is falsy or
  not a string, \<^verbatim>\<open>[]\<close> when the body raises, else what the body returns.
\<close>

definition guarded :: "(string \<Rightarrow> error + 'a list) \<Rightarrow> jsval \<Rightarrow> 'a list" where
  "guarded body v =
     (if \<not> truthy v \<or> \<not> is_string v then []
      else (case v of
              Str text \<Rightarrow> (case body text of Inl err \<Rightarrow> [] | Inr items \<Rightarrow> items)
            | _ \<Rightarrow> []))"

definition processOCRText :: "env \<Rightarrow> jsval \<Rightarrow> grocery_item list" where
  "processOCRText e v = guarded (process_body e) v"

subsection \<open>\<^verbatim>\<open>validateExtractedItem\<close>\<close>

definition is_object :: "jsval \<Rightarrow> bool" where
  "is_object v = (case v of Null \<Rightarrow> True | Obj ps \<Rightarrow> True | _ \<Rightarrow> False)"

text \<open>
  \<^verbatim>\<open>new Date(v)\<close>: a string is parsed, a number is a time value (truncated, and invalid
  beyond 8.64e15), a boolean and \<^verbatim>\<open>null\<close> are numbers, a plain object is parsed as the
  string \<^verbatim>\<open>[object Object]\<close>.
\<close>

definition toDate :: "env \<Rightarrow> jsval \<Rightarrow> jsdate" where
  "toDate e v =
     (case v of
        Str s \<Rightarrow> newDate e s
      | Num n \<Rightarrow> (if \<bar>n\<bar> \<le> 8640000000000000
                  then Date (if 0 \<le> n then \<lfloor>n\<rfloor> else \<lceil>n\<rceil>) else InvalidDate)
      | Bool b \<Rightarrow> Date (if b then 1 else 0)
      | Null \<Rightarrow> Date 0
      | Undefined \<Rightarrow> InvalidDate
      | NaN \<Rightarrow> InvalidDate
      | Obj ps \<Rightarrow> implParse e ''[object Object]'')"

definition validateExtractedItem :: "env \<Rightarrow> jsval \<Rightarrow> grocery_item option" where
  "validateExtractedItem e item =
     (if \<not> truthy item \<or> \<not> is_object item then None
      else
        (let cleaned_id =
               (if truthy (get_prop item ''id'') then get_prop item ''id''
                else Num (of_int (now e) + random e 0));
             cleaned_name =
               (case get_prop item ''name'' of
                  Str s \<Rightarrow> if s \<noteq> [] then substring (trim s) 0 50 else []
                | _ \<Rightarrow> []);
             cleaned_expiry =
               (if truthy (get_prop item ''expiryDate'')
                then (case toDate e (get_prop item ''expiryDate'') of
                        Date t \<Rightarrow> format_ymd e t
                      | InvalidDate \<Rightarrow> format_ymd e (now e + 7 * MS_PER_DAY))
                else []);
             cleaned_confidence =
               (case get_prop item ''confidence'' of
                  Num c \<Rightarrow> if 0 \<le> c \<and> c \<le> 1 then c else 0
                | _ \<Rightarrow> 0)
         in if cleaned_name \<noteq> []
            then Some \<lparr> item_id = cleaned_id, item_name = cleaned_name,
                        expiryDate = cleaned_expiry, addedDate = format_ymd e (now e),
                        confidence = cleaned_confidence \<rparr>
            else None))"

text \<open>A record as the object a caller passes back in.\<close>

definition to_object :: "grocery_item \<Rightarrow> jsval" where
  "to_object r =
     Obj [(''id'', item_id r), (''name'', Str (item_name r)), (''expiryDate'', Str (expiryDate r)),
          (''addedDate'', Str (addedDate r)), (''confidence'', Num (confidence r))]"

subsection \<open>Notions used to state the properties\<close>

text \<open>All suffixes of a string: a pattern matches somewhere when it matches at the start of one.\<close>

fun tails :: "'a list \<Rightarrow> 'a list list" where
  "tails [] = [[]]"
| "tails (x # xs) = (x # xs) # tails xs"

text \<open>The text has a substring of one of the four date shapes.\<close>

definition has_date_shape :: "string \<Rightarrow> bool" where
  "has_date_shape s =
     list_ex (\<lambda>p. list_ex (\<lambda>t. match_atoms p t \<noteq> None) (tails s)) DATE_PATTERNS"

text \<open>The confidences the pipeline can emit.\<close>

definition confidence_values :: "rat set" where
  "confidence_values = {1 / 4, 3 / 10, 2 / 5, 9 / 20, 1 / 2, 7 / 10, 4 / 5, 9 / 10, 1, 11 / 10}"

text \<open>A record without its \<^verbatim>\<open>id\<close>.\<close>

definition without_id :: "grocery_item \<Rightarrow> string \<times> string \<times> string \<times> rat" where
  "without_id r = (item_name r, expiryDate r, addedDate r, confidence r)"

text \<open>
  A host for the concrete runs: the clock at 2026-11-02 12:00 UTC, local time UTC,
  \<^verbatim>\<open>Math.random()\<close> always 0, and a \<^verbatim>\<open>Date.parse\<close> that takes nothing but date-only ISO
  strings.
\<close>

definition utc_host :: env where
  "utc_host = \<lparr> now = 1793620800000, tz = 0, random = (\<lambda>k. 0), implParse = (\<lambda>s. InvalidDate) \<rparr>"

text \<open>Two lists of records that agree in everything but the \<^verbatim>\<open>id\<close>s.\<close>

definition same_fields :: "grocery_item list \<Rightarrow> grocery_item list \<Rightarrow> bool" where
  "same_fields xs ys = (map without_id xs = map without_id ys)"

text \<open>The same host with other draws of \<^verbatim>\<open>Math.random()\<close>, and the same host five hours west of UTC.\<close>

definition utc_host_other_draws :: env where
  "utc_host_other_draws = utc_host\<lparr> random := (\<lambda>k. 1 / 2) \<rparr>"

definition west_host :: env where
  "west_host = utc_host\<lparr> tz := - 300 \<rparr>"

text \<open>A body that raises, for the guard around it.\<close>

definition raising_body :: "string \<Rightarrow> error + grocery_item list" where
  "raising_body s = Inl RangeError"

declare show_nat.simps [simp del]

section \<open>Auxiliary facts\<close>

subsection \<open>Search, sort and guard\<close>

lemma first_some_SomeD: "first_some f xs = Some y \<Longrightarrow> \<exists>x\<in>set xs. f x = Some y"
  by (induction xs) (auto split: option.splits)

lemma set_insert_sorted: "set (insert_sorted cmp x ys) = insert x (set ys)"
  by (induction ys) auto

lemma set_js_sort: "set (js_sort cmp xs) = set xs"
  unfolding js_sort_def by (induction xs) (auto simp: set_insert_sorted)

lemma length_insert_sorted: "length (insert_sorted cmp x ys) = Suc (length ys)"
  by (induction ys) auto

lemma length_js_sort: "length (js_sort cmp xs) = length xs"
  unfolding js_sort_def by (induction xs) (auto simp: length_insert_sorted)

lemma mset_insert_sorted: "mset (insert_sorted cmp x ys) = add_mset x (mset ys)"
  by (induction ys) auto

lemma mset_js_sort: "mset (js_sort cmp xs) = mset xs"
  unfolding js_sort_def by (induction xs) (auto simp: mset_insert_sorted)

lemma guarded_Str:
  "guarded body (Str text) =
     (if text = [] then [] else case body text of Inl err \<Rightarrow> [] | Inr items \<Rightarrow> items)"
  by (simp add: guarded_def truthy_def is_string_def)

lemma guarded_not_string: "\<not> is_string v \<Longrightarrow> guarded body v = []"
  by (simp add: guarded_def)

lemma guarded_memD:
  assumes "r \<in> set (guarded body v)"
  shows "\<exists>text items. v = Str text \<and> body text = Inr items \<and> r \<in> set items"
proof (cases v)
  case (Str s)
  with assms show ?thesis
    by (cases "body s") (auto simp: guarded_Str split: if_splits)
qed (use assms in \<open>auto simp: guarded_def is_string_def\<close>)

subsection \<open>Records and the passes\<close>

lemma make_item_Date:
  "make_item e k nm (Date t) c =
     Inr \<lparr> item_id = Num k, item_name = nm, expiryDate = format_ymd e t,
           addedDate = format_ymd e (now e), confidence = c \<rparr>"
  by (simp add: make_item_def format_date_def)

lemma make_item_InrD:
  "make_item e k nm d c = Inr r \<Longrightarrow>
     item_id r = Num k \<and> item_name r = nm \<and> confidence r = c \<and>
     format_date e d = Inr (expiryDate r) \<and> addedDate r = format_ymd e (now e)"
  by (auto simp: make_item_def split: sum.splits)

lemma find_date_SomeD:
  "find_date u n i vd = Some (j, d) \<Longrightarrow>
     d \<in> set vd \<and> j \<notin> set u \<and> context_matches d n \<and> i \<le> j \<and> j < i + length vd \<and> vd ! (j - i) = d"
proof (induction vd arbitrary: i)
  case Nil
  then show ?case by simp
next
  case (Cons a vd)
  show ?case
  proof (cases "i \<notin> set u \<and> context_matches a n")
    case True
    with Cons.prems show ?thesis by auto
  next
    case False
    with Cons.prems have "find_date u n (Suc i) vd = Some (j, d)" by auto
    from Cons.IH[OF this] show ?thesis by (auto simp: Suc_diff_le)
  qed
qed

lemma first_pass_inv:
  assumes "first_pass e vd names (u, items) = Inr (u', items')"
    and "\<forall>r\<in>set items. Q r"
    and "set names \<subseteq> N"
    and step: "\<And>n d k r. n \<in> N \<Longrightarrow> d \<in> set vd \<Longrightarrow>
           make_item e k (n_name n) (d_date d)
             (n_confidence n + (if d_isExpiry d then 2 / 10 else 0)) = Inr r \<Longrightarrow> Q r"
  shows "\<forall>r\<in>set items'. Q r"
  using assms(1-3)
proof (induction names arbitrary: u items)
  case Nil
  then show ?case by simp
next
  case (Cons n names)
  from Cons.prems(3) have sub: "set names \<subseteq> N" and n: "n \<in> N" by auto
  show ?case
  proof (cases "find_date u n 0 vd")
    case None
    with Cons.prems(1) have "first_pass e vd names (u, items) = Inr (u', items')" by simp
    from Cons.IH[OF this Cons.prems(2) sub] show ?thesis .
  next
    case (Some jd)
    obtain j d where jd: "jd = (j, d)" by (cases jd)
    from Some jd have d: "d \<in> set vd" by (auto dest: find_date_SomeD)
    from Cons.prems(1) Some jd obtain r where
      r: "make_item e (of_int (now e) + random e (length items)) (n_name n) (d_date d)
            (n_confidence n + (if d_isExpiry d then 2 / 10 else 0)) = Inr r"
      and rest: "first_pass e vd names (u @ [j], items @ [r]) = Inr (u', items')"
      by (auto split: sum.splits)
    have "Q r" by (rule step[OF n d r])
    with Cons.prems(2) have "\<forall>x\<in>set (items @ [r]). Q x" by simp
    from Cons.IH[OF rest this sub] show ?thesis .
  qed
qed

lemma second_pass_inv:
  assumes "second_pass e rd i names items = Inr items'"
    and "\<forall>r\<in>set items. Q r"
    and "set names \<subseteq> N"
    and dated: "\<And>n d k r. n \<in> N \<Longrightarrow> d \<in> set rd \<Longrightarrow>
           make_item e k (n_name n) (d_date d) (n_confidence n) = Inr r \<Longrightarrow> Q r"
    and undated: "\<And>n k r. n \<in> N \<Longrightarrow>
           make_item e k (n_name n) (addDays (Date (now e)) 7) (n_confidence n * (5 / 10)) = Inr r \<Longrightarrow> Q r"
  shows "\<forall>r\<in>set items'. Q r"
  using assms(1-3)
proof (induction names arbitrary: i items)
  case Nil
  then show ?case by simp
next
  case (Cons n names)
  from Cons.prems(3) have sub: "set names \<subseteq> N" and n: "n \<in> N" by auto
  from Cons.prems(1) obtain r where
    r: "(if i < length rd
         then make_item e (of_int (now e) + random e (length items) + of_nat i)
                (n_name n) (d_date (rd ! i)) (n_confidence n)
         else make_item e (of_int (now e) + random e (length items) + of_nat i)
                (n_name n) (addDays (Date (now e)) 7) (n_confidence n * (5 / 10))) = Inr r"
    and rest: "second_pass e rd (Suc i) names (items @ [r]) = Inr items'"
    by (auto split: sum.splits)
  have "Q r"
  proof (cases "i < length rd")
    case True
    then have "rd ! i \<in> set rd" by simp
    moreover from r True have "make_item e (of_int (now e) + random e (length items) + of_nat i)
                (n_name n) (d_date (rd ! i)) (n_confidence n) = Inr r" by simp
    ultimately show ?thesis by (rule dated[OF n])
  next
    case False
    with r have "make_item e (of_int (now e) + random e (length items) + of_nat i)
                (n_name n) (addDays (Date (now e)) 7) (n_confidence n * (5 / 10)) = Inr r" by simp
    then show ?thesis by (rule undated[OF n])
  qed
  with Cons.prems(2) have "\<forall>x\<in>set (items @ [r]). Q x" by simp
  from Cons.IH[OF rest this sub] show ?case .
qed

lemma generic_items_inv:
  assumes "generic_items e i ds items = Inr items'"
    and "\<forall>r\<in>set items. Q r"
    and "set ds \<subseteq> D"
    and step: "\<And>d k nm r. d \<in> D \<Longrightarrow> make_item e k nm (d_date d) (3 / 10) = Inr r \<Longrightarrow> Q r"
  shows "\<forall>r\<in>set items'. Q r"
  using assms(1-3)
proof (induction ds arbitrary: i items)
  case Nil
  then show ?case by simp
next
  case (Cons d ds)
  from Cons.prems(3) have sub: "set ds \<subseteq> D" and d: "d \<in> D" by auto
  from Cons.prems(1) obtain r where
    r: "make_item e (of_int (now e) + random e (length items) + of_nat i)
          (''Item '' @ show_nat (i + 1)) (d_date d) (3 / 10) = Inr r"
    and rest: "generic_items e (Suc i) ds (items @ [r]) = Inr items'"
    by (auto split: sum.splits)
  have "Q r" by (rule step[OF d r])
  with Cons.prems(2) have "\<forall>x\<in>set (items @ [r]). Q x" by simp
  from Cons.IH[OF rest this sub] show ?case .
qed

subsection \<open>The confidences of the names\<close>

lemma common_items_conf: "n \<in> set (common_items_in s) \<Longrightarrow> n_confidence n = 8 / 10"
  by (auto simp: common_items_in_def)

lemma context_words_conf:
  assumes "\<forall>n\<in>set items. P (n_confidence n)" and "P (9 / 10)"
  shows "\<forall>n\<in>set (context_words ws items). P (n_confidence n)"
  using assms(1)
proof (induction ws arbitrary: items)
  case Nil
  then show ?case by simp
next
  case (Cons w ws)
  let ?new = "\<lparr> n_name = capitalize (filter is_lower w), n_confidence = 9 / 10 \<rparr>"
  have "\<forall>n\<in>set (items @ [?new]). P (n_confidence n)"
    using Cons.prems assms(2) by simp
  from Cons.IH[OF this] Cons.IH[OF Cons.prems] show ?case
    by (simp add: Let_def)
qed

lemma context_items_conf:
  assumes "\<forall>n\<in>set items. P (n_confidence n)" and "P (9 / 10)"
  shows "\<forall>n\<in>set (context_items cs items). P (n_confidence n)"
  using assms(1)
proof (induction cs arbitrary: items)
  case Nil
  then show ?case by simp
next
  case (Cons c cs)
  have "\<forall>n\<in>set (context_words (split_ws (toLowerCase c)) items). P (n_confidence n)"
    by (rule context_words_conf[OF Cons.prems assms(2)])
  from Cons.IH[OF this] show ?case by simp
qed

lemma line_items_conf: "n \<in> set (line_items ls) \<Longrightarrow> n_confidence n = 5 / 10"
  by (induction ls) (auto simp: Let_def split: if_splits)

lemma extractItemNames_conf:
  assumes "n \<in> set (extractItemNames text ctxs)"
  shows "n_confidence n \<in> {5 / 10, 8 / 10, 9 / 10}"
proof -
  have "\<forall>n\<in>set (context_items ctxs (common_items_in text)). n_confidence n \<in> {5 / 10, 8 / 10, 9 / 10}"
    by (rule context_items_conf) (auto dest: common_items_conf)
  with assms show ?thesis
    by (auto simp: extractItemNames_def Let_def dest: line_items_conf split: if_splits)
qed

lemma process_body_confidence:
  assumes "process_body e text = Inr items" and "r \<in> set items"
  shows "confidence r \<in> confidence_values"
proof -
  let ?vd = "validDates_of e text" and ?names = "itemNames_of e text"
  let ?Q = "\<lambda>r. confidence r \<in> confidence_values"
  have names: "\<And>n. n \<in> set ?names \<Longrightarrow> n_confidence n \<in> {5 / 10, 8 / 10, 9 / 10}"
    unfolding itemNames_of_def by (rule extractItemNames_conf)
  from assms(1) obtain ps items3 where
    m: "matched_items e ?vd ?names = Inr ps"
    and g: "(if length ps = 0 \<and> 0 < length ?vd then generic_items e 0 (take 3 ?vd) ps else Inr ps) = Inr items3"
    and s: "items = js_sort (compare_items e) items3"
    by (auto simp: process_body_def Let_def split: sum.splits)
  from m obtain u ps1 where
    f: "first_pass e ?vd ?names ([], []) = Inr (u, ps1)"
    and sp: "second_pass e (remaining_dates u ?vd) 0 (drop (length ps1) ?names) ps1 = Inr ps"
    by (auto simp: matched_items_def split: sum.splits)
  have names': "set ?names \<subseteq> {n. n_confidence n \<in> {5 / 10, 8 / 10, 9 / 10}}"
    using names by auto
  have q1: "\<forall>r\<in>set ps1. ?Q r"
  proof (rule first_pass_inv[OF f _ names'])
    show "\<forall>r\<in>set []. ?Q r" by simp
  next
    fix n d k r
    assume "n \<in> {n. n_confidence n \<in> {5 / 10, 8 / 10, 9 / 10}}"
      and "make_item e k (n_name n) (d_date d)
             (n_confidence n + (if d_isExpiry d then 2 / 10 else 0)) = Inr r"
    then show "?Q r"
      by (auto dest!: make_item_InrD simp: confidence_values_def split: if_splits)
  qed
  have names'': "set (drop (length ps1) ?names) \<subseteq> {n. n_confidence n \<in> {5 / 10, 8 / 10, 9 / 10}}"
    using names' by (auto dest: in_set_dropD)
  have q2: "\<forall>r\<in>set ps. ?Q r"
  proof (rule second_pass_inv[OF sp q1 names''])
    fix n d k r
    assume "n \<in> {n. n_confidence n \<in> {5 / 10, 8 / 10, 9 / 10}}"
      and "make_item e k (n_name n) (d_date d) (n_confidence n) = Inr r"
    then show "?Q r"
      by (auto dest!: make_item_InrD simp: confidence_values_def)
  next
    fix n k r
    assume "n \<in> {n. n_confidence n \<in> {5 / 10, 8 / 10, 9 / 10}}"
      and "make_item e k (n_name n) (addDays (Date (now e)) 7) (n_confidence n * (5 / 10)) = Inr r"
    then show "?Q r"
      by (auto dest!: make_item_InrD simp: confidence_values_def)
  qed
  have q3: "\<forall>r\<in>set items3. ?Q r"
  proof (cases "length ps = 0 \<and> 0 < length ?vd")
    case True
    with g have "generic_items e 0 (take 3 ?vd) ps = Inr items3" by simp
    then show ?thesis
      by (rule generic_items_inv[OF _ q2 subset_refl]) (auto dest!: make_item_InrD simp: confidence_values_def)
  next
    case False
    with g q2 show ?thesis by auto
  qed
  with s assms(2) show ?thesis by (simp add: set_js_sort)
qed

subsection \<open>The body of the try block raises on no text\<close>

lemma isValid_iff: "isValid d \<longleftrightarrow> (\<exists>t. d = Date t)"
  by (cases d) (simp_all add: isValid_def)

lemma parseDate_valid: "parseDate e s = Some d \<Longrightarrow> isValid d"
  by (auto simp: parseDate_def Let_def split: option.splits if_splits dest!: first_some_SomeD)

lemma map_filter_memD: "y \<in> set (List.map_filter f xs) \<Longrightarrow> \<exists>x\<in>set xs. f x = Some y"
  by (induction xs) (auto split: option.splits)

lemma js_sort_eq_Nil: "js_sort cmp xs = [] \<longleftrightarrow> xs = []"
  by (metis length_js_sort length_0_conv)

lemma parsed_dates_valid: "d \<in> set (parsed_dates e xs) \<Longrightarrow> isValid (d_date d)"
proof -
  assume "d \<in> set (parsed_dates e xs)"
  then obtain x :: date_match and y where "parseDate e (d_text x) = Some y" and "d_date d = y"
    unfolding parsed_dates_def by (auto dest!: map_filter_memD split: option.splits)
  then show ?thesis by (auto dest: parseDate_valid)
qed

lemma validDates_valid: "d \<in> set (validDates_of e s) \<Longrightarrow> isValid (d_date d)"
  by (simp add: validDates_of_def set_js_sort parsed_dates_valid)

lemma make_item_valid: "isValid d \<Longrightarrow> \<exists>r. make_item e k nm d c = Inr r"
  by (auto simp: isValid_iff make_item_Date)

lemma first_pass_total:
  assumes "\<forall>d\<in>set vd. isValid (d_date d)"
  shows "\<exists>st. first_pass e vd names (u, items) = Inr st"
proof (induction names arbitrary: u items)
  case Nil
  then show ?case by simp
next
  case (Cons n names)
  show ?case
  proof (cases "find_date u n 0 vd")
    case None
    with Cons.IH[of u items] show ?thesis by simp
  next
    case (Some jd)
    obtain j d where jd: "jd = (j, d)" by (cases jd)
    with Some have "d \<in> set vd" by (auto dest: find_date_SomeD)
    with assms have "isValid (d_date d)" by simp
    then obtain r where
      "make_item e (of_int (now e) + random e (length items)) (n_name n) (d_date d)
         (n_confidence n + (if d_isExpiry d then 2 / 10 else 0)) = Inr r"
      using make_item_valid by blast
    with Some jd Cons.IH[of "u @ [j]" "items @ [r]"] show ?thesis by simp
  qed
qed

lemma second_pass_total:
  assumes "\<forall>d\<in>set rd. isValid (d_date d)"
  shows "\<exists>items'. second_pass e rd i names items = Inr items'"
proof (induction names arbitrary: i items)
  case Nil
  then show ?case by simp
next
  case (Cons n names)
  have "\<exists>r. (if i < length rd
         then make_item e (of_int (now e) + random e (length items) + of_nat i)
                (n_name n) (d_date (rd ! i)) (n_confidence n)
         else make_item e (of_int (now e) + random e (length items) + of_nat i)
                (n_name n) (addDays (Date (now e)) 7) (n_confidence n * (5 / 10))) = Inr r"
  proof (cases "i < length rd")
    case True
    then have "isValid (d_date (rd ! i))" using assms by simp
    with True show ?thesis by (simp add: make_item_valid)
  next
    case False
    then show ?thesis by (simp add: addDays_def make_item_Date)
  qed
  then obtain r where r: "(if i < length rd
         then make_item e (of_int (now e) + random e (length items) + of_nat i)
                (n_name n) (d_date (rd ! i)) (n_confidence n)
         else make_item e (of_int (now e) + random e (length items) + of_nat i)
                (n_name n) (addDays (Date (now e)) 7) (n_confidence n * (5 / 10))) = Inr r" ..
  from Cons.IH[of "Suc i" "items @ [r]"] obtain items' where
    "second_pass e rd (Suc i) names (items @ [r]) = Inr items'" ..
  with r show ?case by simp
qed

lemma set_remaining_dates: "set (remaining_dates u vd) \<subseteq> set vd"
  by (auto simp: remaining_dates_def dest: set_zip_rightD)

lemma matched_items_total:
  assumes "\<forall>d\<in>set vd. isValid (d_date d)"
  shows "\<exists>ps. matched_items e vd names = Inr ps"
proof -
  from first_pass_total[OF assms, of e names "[]" "[]"] obtain u ps1 where
    f: "first_pass e vd names ([], []) = Inr (u, ps1)" by auto
  have "\<forall>d\<in>set (remaining_dates u vd). isValid (d_date d)"
    using assms set_remaining_dates by blast
  from second_pass_total[OF this] f show ?thesis
    by (simp add: matched_items_def)
qed

lemma generic_items_total:
  assumes "\<forall>d\<in>set ds. isValid (d_date d)"
  shows "\<exists>items'. generic_items e i ds items = Inr items'"
  using assms
proof (induction ds arbitrary: i items)
  case Nil
  then show ?case by simp
next
  case (Cons d ds)
  then have "isValid (d_date d)" by simp
  then obtain t where "d_date d = Date t" by (auto simp: isValid_iff)
  with Cons show ?case by (simp add: make_item_Date)
qed

lemma generic_items_shape:
  assumes "generic_items e i ds items = Inr items'"
  shows "length items' = length items + length ds \<and> take (length items) items' = items \<and>
         (\<forall>j<length ds.
            item_name (items' ! (length items + j)) = ''Item '' @ show_nat (i + j + 1) \<and>
            confidence (items' ! (length items + j)) = 3 / 10 \<and>
            format_date e (d_date (ds ! j)) = Inr (expiryDate (items' ! (length items + j))))"
  using assms
proof (induction ds arbitrary: i items)
  case Nil
  then show ?case by simp
next
  case (Cons d ds)
  from Cons.prems obtain r where
    r: "make_item e (of_int (now e) + random e (length items) + of_nat i)
          (''Item '' @ show_nat (i + 1)) (d_date d) (3 / 10) = Inr r"
    and rest: "generic_items e (Suc i) ds (items @ [r]) = Inr items'"
    by (auto split: sum.splits)
  note ih = Cons.IH[OF rest]
  from ih have len: "length items' = length items + length (d # ds)" by simp
  from ih have tk: "take (Suc (length items)) items' = items @ [r]" by simp
  have "take (length items) (take (Suc (length items)) items') = take (length items) items'"
    by (simp add: min_def)
  with tk have tk': "take (length items) items' = items" by simp
  have "take (Suc (length items)) items' ! length items = items' ! length items"
    by simp
  with tk have at: "items' ! length items = r" by simp
  have "\<forall>j<length (d # ds).
            item_name (items' ! (length items + j)) = ''Item '' @ show_nat (i + j + 1) \<and>
            confidence (items' ! (length items + j)) = 3 / 10 \<and>
            format_date e (d_date ((d # ds) ! j)) = Inr (expiryDate (items' ! (length items + j)))"
  proof (intro allI impI)
    fix j assume j: "j < length (d # ds)"
    show "item_name (items' ! (length items + j)) = ''Item '' @ show_nat (i + j + 1) \<and>
            confidence (items' ! (length items + j)) = 3 / 10 \<and>
            format_date e (d_date ((d # ds) ! j)) = Inr (expiryDate (items' ! (length items + j)))"
    proof (cases j)
      case 0
      with at make_item_InrD[OF r] show ?thesis by simp
    next
      case (Suc j')
      with j have "j' < length ds" by simp
      with ih Suc show ?thesis by simp
    qed
  qed
  with len tk' show ?case by blast
qed

lemma process_body_total: "\<exists>items. process_body e s = Inr items"
proof -
  let ?vd = "validDates_of e s"
  have v: "\<forall>d\<in>set ?vd. isValid (d_date d)" by (simp add: validDates_valid)
  from matched_items_total[OF v] obtain ps where
    m: "matched_items e ?vd (itemNames_of e s) = Inr ps" ..
  have "\<forall>d\<in>set (take 3 ?vd). isValid (d_date d)" using v by (auto dest: in_set_takeD)
  from generic_items_total[OF this] obtain g where g: "generic_items e 0 (take 3 ?vd) ps = Inr g" ..
  show ?thesis
  proof (cases "length ps = 0 \<and> 0 < length ?vd")
    case True
    with m g show ?thesis by (simp add: process_body_def Let_def)
  next
    case False
    with m show ?thesis by (auto simp: process_body_def Let_def)
  qed
qed

lemma show_nat_small:
  "show_nat (Suc 0) = ''1''" "show_nat (Suc (Suc 0)) = ''2''" "show_nat 3 = ''3''"
  by (simp_all add: show_nat.simps digit_char_def)

subsection \<open>Texts without dates\<close>

lemma exec_all_none:
  "\<forall>t\<in>set (tails rest). match_atoms p t = None \<Longrightarrow> exec_all p input i skip rest = []"
  by (induction rest arbitrary: i skip) auto

lemma no_date_shape_extractDates: "\<not> has_date_shape s \<Longrightarrow> extractDates s = []"
  by (auto simp: has_date_shape_def extractDates_def list_ex_iff intro!: exec_all_none)

lemma js_sort_Nil: "js_sort cmp [] = []"
  by (simp add: js_sort_def)

lemma no_date_shape_validDates: "\<not> has_date_shape s \<Longrightarrow> validDates_of e s = []"
  by (simp add: validDates_of_def no_date_shape_extractDates parsed_dates_def js_sort_Nil)

lemma line_items_none:
  "\<forall>l\<in>set ls. length (firstWord_of (trim l)) \<le> 2 \<Longrightarrow> line_items ls = []"
  by (induction ls) (auto simp: Let_def)

lemma matched_items_Nil: "matched_items e [] [] = Inr []"
  by (simp add: matched_items_def remaining_dates_def)

lemma vocabulary_terms_in_Nil: "vocabulary_terms_in [] = []"
  by code_simp

subsection \<open>The validator\<close>

lemma trim_Nil: "trim [] = []"
  by (simp add: trim_def)

lemma substring_prefix_nonempty: "s \<noteq> [] \<Longrightarrow> substring s 0 50 \<noteq> []"
  by (cases s) (simp_all add: substring_def Let_def)

subsection \<open>The draws of \<^verbatim>\<open>Math.random()\<close> reach the ids only\<close>

lemma format_ymd_random [simp]: "format_ymd (e\<lparr>random := f\<rparr>) t = format_ymd e t"
  by (simp add: format_ymd_def local_civil_def)

lemma format_date_random [simp]: "format_date (e\<lparr>random := f\<rparr>) d = format_date e d"
  by (cases d) (simp_all add: format_date_def)

lemma newDate_random [simp]: "newDate (e\<lparr>random := f\<rparr>) s = newDate e s"
  by (simp add: newDate_def split: option.splits)

lemma set_fields_random [simp]: "set_fields (e\<lparr>random := f\<rparr>) p = set_fields e p"
  by (simp add: set_fields_def local_civil_def local_midnight_def Let_def split: option.splits prod.splits)

lemma dfns_parse_random [simp]: "dfns_parse (e\<lparr>random := f\<rparr>) s fm = dfns_parse e s fm"
  by (simp add: dfns_parse_def split: option.splits prod.splits)

lemma parseDate_random [simp]: "parseDate (e\<lparr>random := f\<rparr>) s = parseDate e s"
  by (simp add: parseDate_def Let_def split: option.splits)

lemma validDates_of_random [simp]: "validDates_of (e\<lparr>random := f\<rparr>) s = validDates_of e s"
  by (simp add: validDates_of_def parsed_dates_def)

lemma itemNames_of_random [simp]: "itemNames_of (e\<lparr>random := f\<rparr>) s = itemNames_of e s"
  by (simp add: itemNames_of_def)

lemma compare_items_random [simp]: "compare_items (e\<lparr>random := f\<rparr>) = compare_items e"
  by (simp add: compare_items_def fun_eq_iff)

lemma same_fields_length: "same_fields xs ys \<Longrightarrow> length xs = length ys"
  unfolding same_fields_def by (rule map_eq_imp_length_eq)

lemma same_fields_snoc:
  "same_fields xs ys \<Longrightarrow> without_id x = without_id y \<Longrightarrow> same_fields (xs @ [x]) (ys @ [y])"
  by (simp add: same_fields_def)

lemma make_item_random:
  "rel_sum (=) (\<lambda>x y. without_id x = without_id y)
     (make_item (e\<lparr>random := f\<rparr>) k nm d c) (make_item e k' nm d c)"
  by (cases d) (simp_all add: make_item_def format_date_def without_id_def)

lemma error_eq: "(a :: error) = b"
  by (cases a; cases b) simp

lemma bind_random:
  assumes "rel_sum (=) (\<lambda>x y. without_id x = without_id y) m1 m2"
    and "\<And>x y. without_id x = without_id y \<Longrightarrow> rel_sum (=) R (k1 x) (k2 y)"
  shows "rel_sum (=) R (case m1 of Inl err \<Rightarrow> Inl err | Inr r \<Rightarrow> k1 r)
                       (case m2 of Inl err \<Rightarrow> Inl err | Inr r \<Rightarrow> k2 r)"
  using assms by (cases m1; cases m2) auto

lemma first_pass_random:
  assumes "same_fields xs ys"
  shows "rel_sum (=) (\<lambda>(u1, r1) (u2, r2). u1 = u2 \<and> same_fields r1 r2)
           (first_pass (e\<lparr>random := f\<rparr>) vd names (u, xs)) (first_pass e vd names (u, ys))"
  using assms
proof (induction names arbitrary: u xs ys)
  case Nil
  then show ?case by simp
next
  case (Cons n names)
  show ?case
  proof (cases "find_date u n 0 vd")
    case None
    with Cons show ?thesis by simp
  next
    case (Some jd)
    obtain j d where jd: "jd = (j, d)" by (cases jd)
    have "rel_sum (=) (\<lambda>(u1, r1) (u2, r2). u1 = u2 \<and> same_fields r1 r2)
            (case make_item (e\<lparr>random := f\<rparr>) (of_int (now e) + f (length xs)) (n_name n) (d_date d)
                    (n_confidence n + (if d_isExpiry d then 2 / 10 else 0)) of
               Inl err \<Rightarrow> Inl err
             | Inr r \<Rightarrow> first_pass (e\<lparr>random := f\<rparr>) vd names (u @ [j], xs @ [r]))
            (case make_item e (of_int (now e) + random e (length ys)) (n_name n) (d_date d)
                    (n_confidence n + (if d_isExpiry d then 2 / 10 else 0)) of
               Inl err \<Rightarrow> Inl err
             | Inr r \<Rightarrow> first_pass e vd names (u @ [j], ys @ [r]))"
      by (rule bind_random[OF make_item_random]) (rule Cons.IH[OF same_fields_snoc[OF Cons.prems]])
    with Some jd show ?thesis by simp
  qed
qed

lemma second_pass_random:
  assumes "same_fields xs ys"
  shows "rel_sum (=) same_fields
           (second_pass (e\<lparr>random := f\<rparr>) rd i names xs) (second_pass e rd i names ys)"
  using assms
proof (induction names arbitrary: i xs ys)
  case Nil
  then show ?case by simp
next
  case (Cons n names)
  have step: "rel_sum (=) same_fields
            (case make_item (e\<lparr>random := f\<rparr>) (of_int (now e) + f (length xs) + of_nat i) (n_name n) d c of
               Inl err \<Rightarrow> Inl err
             | Inr r \<Rightarrow> second_pass (e\<lparr>random := f\<rparr>) rd (Suc i) names (xs @ [r]))
            (case make_item e (of_int (now e) + random e (length ys) + of_nat i) (n_name n) d c of
               Inl err \<Rightarrow> Inl err
             | Inr r \<Rightarrow> second_pass e rd (Suc i) names (ys @ [r]))" for d c
    by (rule bind_random[OF make_item_random]) (rule Cons.IH[OF same_fields_snoc[OF Cons.prems]])
  show ?case
  proof (cases "i < length rd")
    case True
    with step[of "d_date (rd ! i)" "n_confidence n"] show ?thesis by simp
  next
    case False
    with step[of "addDays (Date (now e)) 7" "n_confidence n * (5 / 10)"] show ?thesis by simp
  qed
qed

lemma generic_items_random:
  assumes "same_fields xs ys"
  shows "rel_sum (=) same_fields
           (generic_items (e\<lparr>random := f\<rparr>) i ds xs) (generic_items e i ds ys)"
  using assms
proof (induction ds arbitrary: i xs ys)
  case Nil
  then show ?case by simp
next
  case (Cons d ds)
  have "rel_sum (=) same_fields
            (case make_item (e\<lparr>random := f\<rparr>) (of_int (now e) + f (length xs) + of_nat i)
                    (''Item '' @ show_nat (i + 1)) (d_date d) (3 / 10) of
               Inl err \<Rightarrow> Inl err
             | Inr r \<Rightarrow> generic_items (e\<lparr>random := f\<rparr>) (Suc i) ds (xs @ [r]))
            (case make_item e (of_int (now e) + random e (length ys) + of_nat i)
                    (''Item '' @ show_nat (i + 1)) (d_date d) (3 / 10) of
               Inl err \<Rightarrow> Inl err
             | Inr r \<Rightarrow> generic_items e (Suc i) ds (ys @ [r]))"
    by (rule bind_random[OF make_item_random]) (rule Cons.IH[OF same_fields_snoc[OF Cons.prems]])
  then show ?case by simp
qed

lemma compare_items_without_id:
  "without_id a = without_id a' \<Longrightarrow> without_id b = without_id b' \<Longrightarrow>
     compare_items e a b = compare_items e a' b'"
  by (simp add: compare_items_def without_id_def)

lemma insert_sorted_same_fields:
  assumes "without_id x = without_id y" and "same_fields xs ys"
  shows "same_fields (insert_sorted (compare_items e) x xs) (insert_sorted (compare_items e) y ys)"
  using assms(2)
proof (induction xs arbitrary: ys)
  case Nil
  with assms(1) show ?case by (simp add: same_fields_def)
next
  case (Cons a xs)
  from Cons.prems obtain b ys' where ys: "ys = b # ys'" and ab: "without_id a = without_id b"
    and rest: "same_fields xs ys'"
    by (cases ys) (auto simp: same_fields_def)
  have "compare_items e x a = compare_items e y b"
    by (rule compare_items_without_id[OF assms(1) ab])
  with Cons.IH[OF rest] Cons.prems assms(1) ab ys show ?case
    by (auto simp: same_fields_def)
qed

lemma js_sort_same_fields:
  "same_fields xs ys \<Longrightarrow>
     same_fields (js_sort (compare_items e) xs) (js_sort (compare_items e) ys)"
proof (induction xs arbitrary: ys)
  case Nil
  then show ?case by (simp add: same_fields_def js_sort_def)
next
  case (Cons a xs)
  from Cons.prems obtain b ys' where ys: "ys = b # ys'" and ab: "without_id a = without_id b"
    and rest: "same_fields xs ys'"
    by (cases ys) (auto simp: same_fields_def)
  from insert_sorted_same_fields[OF ab Cons.IH[OF rest]] ys show ?case
    by (simp add: js_sort_def)
qed

lemma process_body_random:
  "rel_sum (=) same_fields (process_body (e\<lparr>random := f\<rparr>) s) (process_body e s)"
proof -
  let ?e' = "e\<lparr>random := f\<rparr>"
  let ?vd = "validDates_of e s" and ?names = "itemNames_of e s"
  have nil: "same_fields [] []" by (simp add: same_fields_def)
  have m: "rel_sum (=) same_fields (matched_items ?e' ?vd ?names) (matched_items e ?vd ?names)"
  proof -
    note fp = first_pass_random[OF nil, where e = e and f = f and vd = ?vd and names = ?names and u = "[]"]
    show ?thesis
    proof (cases "first_pass ?e' ?vd ?names ([], [])")
      case (Inl a)
      with fp obtain b where "first_pass e ?vd ?names ([], []) = Inl b"
        by (cases "first_pass e ?vd ?names ([], [])") auto
      with Inl fp show ?thesis by (simp add: matched_items_def error_eq)
    next
      case (Inr st)
      obtain u1 r1 where st: "st = (u1, r1)" by (cases st)
      with Inr fp obtain r2 where
        f2: "first_pass e ?vd ?names ([], []) = Inr (u1, r2)" and r: "same_fields r1 r2"
        by (cases "first_pass e ?vd ?names ([], [])") auto
      from second_pass_random[OF r, where e = e and f = f and rd = "remaining_dates u1 ?vd" and i = 0
          and names = "drop (length r1) ?names"]
        Inr st f2 same_fields_length[OF r]
      show ?thesis by (simp add: matched_items_def)
    qed
  qed
  show ?thesis
  proof (cases "matched_items ?e' ?vd ?names")
    case (Inl a)
    with m have "matched_items e ?vd ?names = Inl a"
      by (cases "matched_items e ?vd ?names") auto
    with Inl show ?thesis by (simp add: process_body_def)
  next
    case (Inr ps1)
    with m obtain ps2 where m2: "matched_items e ?vd ?names = Inr ps2" and ps: "same_fields ps1 ps2"
      by (cases "matched_items e ?vd ?names") auto
    note len = same_fields_length[OF ps]
    show ?thesis
    proof (cases "length ps1 = 0 \<and> 0 < length ?vd")
      case True
      note g = generic_items_random[OF ps, where e = e and f = f and i = 0 and ds = "take 3 ?vd"]
      show ?thesis
      proof (cases "generic_items ?e' 0 (take 3 ?vd) ps1")
        case (Inl a)
        with g obtain b where "generic_items e 0 (take 3 ?vd) ps2 = Inl b"
          by (cases "generic_items e 0 (take 3 ?vd) ps2") auto
        with Inl Inr m2 True len show ?thesis by (simp add: process_body_def error_eq)
      next
        case (Inr g1)
        with g obtain g2 where g2: "generic_items e 0 (take 3 ?vd) ps2 = Inr g2"
          and gg: "same_fields g1 g2"
          by (cases "generic_items e 0 (take 3 ?vd) ps2") auto
        from js_sort_same_fields[OF gg] Inr g2 \<open>matched_items ?e' ?vd ?names = Inr ps1\<close> m2 True len
        show ?thesis by (simp add: process_body_def)
      qed
    next
      case False
      with js_sort_same_fields[OF ps, of e] Inr m2 len show ?thesis
        by (auto simp add: process_body_def Let_def)
    qed
  qed
qed

lemma processOCRText_random:
  "map without_id (processOCRText (e\<lparr>random := f\<rparr>) v) = map without_id (processOCRText e v)"
proof (cases v)
  case (Str s)
  note pb = process_body_random[where e = e and f = f and s = s]
  show ?thesis
  proof (cases "process_body (e\<lparr>random := f\<rparr>) s")
    case (Inl a)
    with pb obtain b where "process_body e s = Inl b" by (cases "process_body e s") auto
    with Inl Str show ?thesis by (simp add: processOCRText_def guarded_Str error_eq)
  next
    case (Inr xs)
    with pb obtain ys where "process_body e s = Inr ys" and "same_fields xs ys"
      by (cases "process_body e s") auto
    with Inr Str show ?thesis by (simp add: processOCRText_def guarded_Str same_fields_def)
  qed
qed (simp_all add: processOCRText_def guarded_def is_string_def)

subsection \<open>Concrete runs\<close>

lemma validDates_of_Nil: "validDates_of e [] = []"
  by (simp add: validDates_of_def extractDates_def DATE_PATTERNS_def parsed_dates_def js_sort_def)

lemma run_milk:
  "processOCRText utc_host (Str ''milk'') =
     [\<lparr> item_id = Num 1793620800000, item_name = ''Milk'', expiryDate = ''2026-11-09'',
         addedDate = ''2026-11-02'', confidence = 2 / 5 \<rparr>]"
  by code_simp

lemma run_milk_other_draws:
  "processOCRText utc_host_other_draws (Str ''milk'') =
     [\<lparr> item_id = Num (3587241600001 / 2), item_name = ''Milk'', expiryDate = ''2026-11-09'',
         addedDate = ''2026-11-02'', confidence = 2 / 5 \<rparr>]"
  by code_simp

lemma run_chicken:
  "processOCRText utc_host (Str ''chic-ken exp 12/25/2024'') =
     [\<lparr> item_id = Num 1793620800000, item_name = ''Chicken'', expiryDate = ''2024-12-25'',
         addedDate = ''2026-11-02'', confidence = 11 / 10 \<rparr>]"
  by code_simp

text \<open>
  A month-first date with dashes and a four-digit year fits none of the twelve formats:
  what \<^verbatim>\<open>parseDate\<close> returns for it is what the native parser of the host makes of it.
\<close>

lemma four_digit_dash_date_is_left_to_the_host:
  "parseDate e ''12-05-2024'' =
     (if isValid (implParse e ''12-05-2024'') then Some (implParse e ''12-05-2024'') else None)"
  by code_simp

lemma milk_has_no_date_shape: "\<not> has_date_shape ''milk''"
  by code_simp

lemma milk_is_the_only_term: "vocabulary_terms_in ''milk'' = [''milk'']"
  by code_simp


section \<open>The claims\<close>

subsection \<open>C1: the range of the confidence\<close>

text \<open>
  C1 says that every record \<^verbatim>\<open>processOCRText\<close> returns has a confidence in \<open>[0, 1]\<close>, the
  records of the first pass with their expiry bonus of 0.2 included. As amended: every
  record has a confidence above 0 and at most 1.1, and the only value above 1 is 1.1. The
  first pass adds the bonus without a bound: a name taken from a date context (0.9) that
  meets a date with the expiry flag gets 0.9 + 0.2.
\<close>

theorem confidence_range:
  assumes "r \<in> set (processOCRText e v)"
  shows "0 < confidence r \<and> confidence r \<le> 11 / 10 \<and> (1 < confidence r \<longrightarrow> confidence r = 11 / 10)"
proof -
  from assms obtain s items where "process_body e s = Inr items" and "r \<in> set items"
    unfolding processOCRText_def by (blast dest: guarded_memD)
  then have "confidence r \<in> confidence_values" by (rule process_body_confidence)
  then show ?thesis by (auto simp: confidence_values_def)
qed

text \<open>The theorem at the record of the text \<^verbatim>\<open>chic-ken exp 12/25/2024\<close>.\<close>

theorem confidence_range_witness:
  "\<lparr> item_id = Num 1793620800000, item_name = ''Chicken'', expiryDate = ''2024-12-25'',
      addedDate = ''2026-11-02'', confidence = 11 / 10 \<rparr>
     \<in> set (processOCRText utc_host (Str ''chic-ken exp 12/25/2024'')) \<and>
   confidence \<lparr> item_id = Num 1793620800000, item_name = ''Chicken'',
      expiryDate = ''2024-12-25'', addedDate = ''2026-11-02'', confidence = 11 / 10 \<rparr> \<le> 11 / 10"
proof -
  have mem: "\<lparr> item_id = Num 1793620800000, item_name = ''Chicken'', expiryDate = ''2024-12-25'',
      addedDate = ''2026-11-02'', confidence = 11 / 10 \<rparr>
     \<in> set (processOCRText utc_host (Str ''chic-ken exp 12/25/2024''))"
    by (simp add: run_chicken)
  from confidence_range[OF mem]
  have "confidence \<lparr> item_id = Num 1793620800000, item_name = ''Chicken'',
      expiryDate = ''2024-12-25'', addedDate = ''2026-11-02'', confidence = 11 / 10 \<rparr> \<le> 11 / 10"
    by (rule conjunct1[OF conjunct2])
  with mem show ?thesis by (rule conjI)
qed

text \<open>
  The claim as stated fails at the text \<^verbatim>\<open>chic-ken exp 12/25/2024\<close>: no word of the text
  contains a vocabulary term, the date context gives the name Chicken with confidence 0.9,
  the context holds \<^verbatim>\<open>exp\<close> and \<^verbatim>\<open>chic\<close>, and the one record returned has confidence 1.1.
\<close>

theorem confidence_above_one_counterexample:
  "map n_confidence (itemNames_of utc_host ''chic-ken exp 12/25/2024'') = [9 / 10] \<and>
   map confidence (processOCRText utc_host (Str ''chic-ken exp 12/25/2024'')) = [11 / 10] \<and>
   \<not> (11 / 10 :: rat) \<le> 1"
proof -
  have "map n_confidence (itemNames_of utc_host ''chic-ken exp 12/25/2024'') = [9 / 10]"
    by code_simp
  then show ?thesis by (simp add: run_chicken)
qed

subsection \<open>C2: the names of the second pass\<close>

text \<open>
  C2 says that the second pass takes exactly the names the first pass left unmatched, so
  that every name is used once. The code takes \<^verbatim>\<open>itemNames.slice(processedItems.length)\<close>:
  the names behind the first \<open>k\<close>, where \<open>k\<close> counts the matches of the first pass. On a
  text whose first name (Milk) is more than 20 characters away from the date and whose
  second name (Bread) stands next to it, Bread is matched in the first pass and taken
  again in the second, and Milk is dropped.
\<close>

theorem second_pass_repeats_matched_name:
  "map n_name (itemNames_of utc_host
       (''milk is in the fridge today'' @ [CHR 0x0A] @ ''bread 12/25/2024'')) = [''Milk'', ''Bread''] \<and>
   map item_name (processOCRText utc_host
       (Str (''milk is in the fridge today'' @ [CHR 0x0A] @ ''bread 12/25/2024''))) = [''Bread'', ''Bread'']"
  by code_simp

subsection \<open>C3: text with nothing to recognise\<close>

text \<open>
  C3 says that a text with no date shape and no vocabulary term gives the empty list.
  As amended: a text with no substring of a date shape, no word that contains a vocabulary
  term, and no line whose first word has more than two letters gives the empty list.
  (Without the third condition the first words of the lines become names.)
\<close>

theorem nothing_recognised_gives_empty_list:
  assumes "\<not> has_date_shape s" and "vocabulary_terms_in s = []"
    and "\<forall>l\<in>set (split_lines s). length (firstWord_of (trim l)) \<le> 2"
  shows "processOCRText e (Str s) = []"
proof -
  have vd: "validDates_of e s = []" by (rule no_date_shape_validDates[OF assms(1)])
  have "itemNames_of e s = []"
    using assms(2,3) by (simp add: itemNames_of_def vd extractItemNames_def common_items_in_def line_items_none)
  with vd show ?thesis
    by (simp add: processOCRText_def guarded_Str process_body_def matched_items_Nil js_sort_Nil)
qed

text \<open>The theorem at the text \<^verbatim>\<open>ab 12\<close>.\<close>

theorem nothing_recognised_witness:
  "\<not> has_date_shape ''ab 12'' \<and> vocabulary_terms_in ''ab 12'' = [] \<and>
   list_all (\<lambda>l. length (firstWord_of (trim l)) \<le> 2) (split_lines ''ab 12'') \<and>
   processOCRText utc_host (Str ''ab 12'') = []"
proof -
  have 1: "\<not> has_date_shape ''ab 12''" by code_simp
  have 2: "vocabulary_terms_in ''ab 12'' = []" by code_simp
  have 3: "list_all (\<lambda>l. length (firstWord_of (trim l)) \<le> 2) (split_lines ''ab 12'')" by code_simp
  from 3 have 4: "\<forall>l\<in>set (split_lines ''ab 12''). length (firstWord_of (trim l)) \<le> 2"
    by (simp only: list_all_iff)
  from nothing_recognised_gives_empty_list[OF 1 2 4] 1 2 3 show ?thesis by blast
qed

text \<open>
  The claim as stated fails at the text \<^verbatim>\<open>hello\<close>: it has no date shape and no vocabulary
  term, and its first word becomes the name of a record.
\<close>

theorem unknown_word_counterexample:
  "\<not> has_date_shape ''hello'' \<and> vocabulary_terms_in ''hello'' = [] \<and>
   map item_name (processOCRText utc_host (Str ''hello'')) = [''Hello'']"
  by code_simp

subsection \<open>C4: one name and no date\<close>

text \<open>
  C4 says that a text with one vocabulary name and no date gives one record, expiring seven
  days after the processing date, with half the base confidence of the name, and takes
  that half to be 0.25. As amended: the confidence is 0.4, half of the 0.8 of a name found
  by the scan of the whole text; the rest stands.
\<close>

theorem single_name_without_date:
  assumes "\<not> has_date_shape s" and "vocabulary_terms_in s = [item]"
  shows "processOCRText e (Str s) =
           [\<lparr> item_id = Num (of_int (now e) + random e 0 + 0), item_name = capitalize item,
               expiryDate = format_ymd e (now e + 7 * MS_PER_DAY),
               addedDate = format_ymd e (now e), confidence = 2 / 5 \<rparr>]"
proof -
  have vd: "validDates_of e s = []" by (rule no_date_shape_validDates[OF assms(1)])
  from assms(2) have ne: "s \<noteq> []" using vocabulary_terms_in_Nil by auto
  have names: "itemNames_of e s = [\<lparr> n_name = capitalize item, n_confidence = 8 / 10 \<rparr>]"
    using assms(2) by (simp add: itemNames_of_def vd extractItemNames_def common_items_in_def)
  have "matched_items e [] [\<lparr> n_name = capitalize item, n_confidence = 8 / 10 \<rparr>] =
          Inr [\<lparr> item_id = Num (of_int (now e) + random e 0 + 0), item_name = capitalize item,
               expiryDate = format_ymd e (now e + 7 * MS_PER_DAY),
               addedDate = format_ymd e (now e), confidence = 2 / 5 \<rparr>]"
    by (simp add: matched_items_def remaining_dates_def addDays_def make_item_Date)
  with vd names ne show ?thesis
    by (simp add: processOCRText_def guarded_Str process_body_def js_sort_def)
qed

text \<open>The theorem at the text \<^verbatim>\<open>milk\<close>.\<close>

theorem single_name_without_date_witness:
  "\<not> has_date_shape ''milk'' \<and> vocabulary_terms_in ''milk'' = [''milk''] \<and>
   processOCRText utc_host (Str ''milk'') =
     [\<lparr> item_id = Num 1793620800000, item_name = ''Milk'', expiryDate = ''2026-11-09'',
         addedDate = ''2026-11-02'', confidence = 2 / 5 \<rparr>]"
proof -
  note 1 = milk_has_no_date_shape and 2 = milk_is_the_only_term
  have 3: "Num (of_int (now utc_host) + random utc_host 0 + 0) = Num 1793620800000"
    by (simp add: utc_host_def)
  have 4: "capitalize ''milk'' = ''Milk''" by code_simp
  have 5: "format_ymd utc_host (now utc_host + 7 * MS_PER_DAY) = ''2026-11-09''" by code_simp
  have 6: "format_ymd utc_host (now utc_host) = ''2026-11-02''" by code_simp
  from single_name_without_date[OF 1 2, of utc_host]
  have "processOCRText utc_host (Str ''milk'') =
     [\<lparr> item_id = Num 1793620800000, item_name = ''Milk'', expiryDate = ''2026-11-09'',
         addedDate = ''2026-11-02'', confidence = 2 / 5 \<rparr>]"
    by (simp only: 3 4 5 6)
  with 1 2 show ?thesis by blast
qed

text \<open>The claim as stated fails at the text \<^verbatim>\<open>milk\<close>: the confidence is 0.4, not 0.25.\<close>

theorem quarter_confidence_counterexample:
  "\<not> has_date_shape ''milk'' \<and> vocabulary_terms_in ''milk'' = [''milk''] \<and>
   map confidence (processOCRText utc_host (Str ''milk'')) = [2 / 5] \<and> (2 / 5 :: rat) \<noteq> 1 / 4"
  by (simp add: run_milk milk_has_no_date_shape milk_is_the_only_term)

subsection \<open>C5: validating a canonical record\<close>

text \<open>
  C5 says that \<^verbatim>\<open>validateExtractedItem\<close> returns a canonical record unchanged. The code
  reads the expiry date with \<^verbatim>\<open>new Date(string)\<close>, which takes a date-only ISO string as
  midnight UTC, and prints it with \<^verbatim>\<open>format\<close>, which uses local time. On a host west of
  UTC the date comes back one day earlier: with local time five hours behind UTC the
  canonical record below, added today and expiring 2024-12-25, is returned with the expiry
  date 2024-12-24.
\<close>

theorem validation_moves_expiry_date:
  "format_ymd west_host (now west_host) = ''2026-11-02'' \<and>
   validateExtractedItem west_host
     (to_object \<lparr> item_id = Num 1, item_name = ''Milk'', expiryDate = ''2024-12-25'',
                   addedDate = ''2026-11-02'', confidence = 4 / 5 \<rparr>) =
     Some \<lparr> item_id = Num 1, item_name = ''Milk'', expiryDate = ''2024-12-24'',
            addedDate = ''2026-11-02'', confidence = 4 / 5 \<rparr>"
  by code_simp

text \<open>The expiry dates alone, read off the theorem.\<close>

theorem validation_moves_expiry_date_witness:
  "map_option expiryDate
     (validateExtractedItem west_host
        (to_object \<lparr> item_id = Num 1, item_name = ''Milk'', expiryDate = ''2024-12-25'',
                      addedDate = ''2026-11-02'', confidence = 4 / 5 \<rparr>)) = Some ''2024-12-24''"
  using validation_moves_expiry_date by simp

subsection \<open>C6: dates without names\<close>

text \<open>
  C6: when at least one date parsed, the result of \<^verbatim>\<open>processOCRText\<close> is not empty; and
  when moreover the first and the second pass gave no record, the result holds, in some
  order, between one and three generic records: the \<open>i\<close>-th of them is named
  \<^verbatim>\<open>Item i\<close>, has confidence 0.3, and expires on the \<open>i\<close>-th of the ranked dates.
\<close>

theorem orphan_dates_give_generic_items:
  assumes "validDates_of e s \<noteq> []"
  shows "processOCRText e (Str s) \<noteq> [] \<and>
         (matched_items e (validDates_of e s) (itemNames_of e s) = Inr [] \<longrightarrow>
            (\<exists>items. mset (processOCRText e (Str s)) = mset items \<and>
               length items = min 3 (length (validDates_of e s)) \<and>
               1 \<le> length items \<and> length items \<le> 3 \<and>
               (\<forall>i<length items.
                  item_name (items ! i) = [''Item 1'', ''Item 2'', ''Item 3''] ! i \<and>
                  confidence (items ! i) = 3 / 10 \<and>
                  format_date e (d_date (validDates_of e s ! i)) = Inr (expiryDate (items ! i)))))"
proof -
  let ?vd = "validDates_of e s"
  from assms have ne: "s \<noteq> []" using validDates_of_Nil by auto
  have v: "\<forall>d\<in>set ?vd. isValid (d_date d)" by (simp add: validDates_valid)
  from matched_items_total[OF v] obtain ps where
    m: "matched_items e ?vd (itemNames_of e s) = Inr ps" ..
  have "\<forall>d\<in>set (take 3 ?vd). isValid (d_date d)" using v by (auto dest: in_set_takeD)
  from generic_items_total[OF this] obtain g where g: "generic_items e 0 (take 3 ?vd) ps = Inr g" ..
  note shape = generic_items_shape[OF g]
  have out: "processOCRText e (Str s) =
        js_sort (compare_items e) (if ps = [] then g else ps)"
  proof (cases "ps = []")
    case True
    with g have "generic_items e 0 (take 3 ?vd) [] = Inr g" by simp
    with assms ne m True show ?thesis
      by (simp add: processOCRText_def guarded_Str process_body_def Let_def)
  next
    case False
    with assms ne m show ?thesis
      by (simp add: processOCRText_def guarded_Str process_body_def Let_def)
  qed
  have gne: "g \<noteq> []" if "ps = []"
  proof -
    from shape that have "length g = length (take 3 ?vd)" by simp
    with assms show ?thesis by (cases ?vd) auto
  qed
  have nonempty: "processOCRText e (Str s) \<noteq> []"
    using gne by (simp add: out js_sort_eq_Nil)
  have generic: "\<exists>items. mset (processOCRText e (Str s)) = mset items \<and>
               length items = min 3 (length ?vd) \<and>
               1 \<le> length items \<and> length items \<le> 3 \<and>
               (\<forall>i<length items.
                  item_name (items ! i) = [''Item 1'', ''Item 2'', ''Item 3''] ! i \<and>
                  confidence (items ! i) = 3 / 10 \<and>
                  format_date e (d_date (?vd ! i)) = Inr (expiryDate (items ! i)))"
    if ps: "ps = []"
  proof (intro exI[of _ g] conjI)
    show "mset (processOCRText e (Str s)) = mset g" by (simp add: out ps mset_js_sort)
    from shape ps show len: "length g = min 3 (length ?vd)" by simp
    from len assms show "1 \<le> length g" by (cases ?vd) auto
    from len show "length g \<le> 3" by simp
    show "\<forall>i<length g.
            item_name (g ! i) = [''Item 1'', ''Item 2'', ''Item 3''] ! i \<and>
            confidence (g ! i) = 3 / 10 \<and>
            format_date e (d_date (?vd ! i)) = Inr (expiryDate (g ! i))"
    proof (intro allI impI)
      fix i assume i: "i < length g"
      with len have i3: "i < 3" and il: "i < length (take 3 ?vd)" by auto
      from shape ps il have
        "item_name (g ! i) = ''Item '' @ show_nat (i + 1) \<and> confidence (g ! i) = 3 / 10 \<and>
         format_date e (d_date (take 3 ?vd ! i)) = Inr (expiryDate (g ! i))"
        by auto
      moreover from i3 have "i = 0 \<or> i = 1 \<or> i = 2" by auto
      ultimately show "item_name (g ! i) = [''Item 1'', ''Item 2'', ''Item 3''] ! i \<and>
            confidence (g ! i) = 3 / 10 \<and>
            format_date e (d_date (?vd ! i)) = Inr (expiryDate (g ! i))"
        using i3 by (auto simp: show_nat_small)
    qed
  qed
  from nonempty generic m show ?thesis by simp
qed

text \<open>The theorem at the text \<^verbatim>\<open>1/2/2024\<close>, a date with no name.\<close>

theorem orphan_dates_witness:
  "validDates_of utc_host ''1/2/2024'' \<noteq> [] \<and>
   matched_items utc_host (validDates_of utc_host ''1/2/2024'')
     (itemNames_of utc_host ''1/2/2024'') = Inr [] \<and>
   processOCRText utc_host (Str ''1/2/2024'') \<noteq> [] \<and>
   length (processOCRText utc_host (Str ''1/2/2024'')) \<le> 3"
proof -
  have 1: "validDates_of utc_host ''1/2/2024'' \<noteq> []" by code_simp
  have 2: "matched_items utc_host (validDates_of utc_host ''1/2/2024'')
             (itemNames_of utc_host ''1/2/2024'') = Inr []" by code_simp
  note t = orphan_dates_give_generic_items[OF 1]
  from t have 3: "processOCRText utc_host (Str ''1/2/2024'') \<noteq> []" by (rule conjunct1)
  from t 2 obtain items where
    "mset (processOCRText utc_host (Str ''1/2/2024'')) = mset items" and "length items \<le> 3"
    by blast
  then have 4: "length (processOCRText utc_host (Str ''1/2/2024'')) \<le> 3"
    using mset_eq_length by fastforce
  from 1 2 3 4 show ?thesis by blast
qed

subsection \<open>C7: no exception leaves \<^verbatim>\<open>processOCRText\<close>\<close>

text \<open>
  C7: \<^verbatim>\<open>processOCRText\<close> returns the empty list for a value that is falsy or not a string,
  and the guard around its body returns the empty list whenever the body raises; the
  body of \<^verbatim>\<open>processOCRText\<close> itself raises on no text at all.
\<close>

theorem never_throws:
  "(\<exists>items. process_body e s = Inr items) \<and>
   (\<not> truthy v \<or> \<not> is_string v \<longrightarrow> processOCRText e v = []) \<and>
   (body s = Inl err \<longrightarrow> guarded body (Str s) = [])"
  by (auto simp: process_body_total processOCRText_def guarded_def)

text \<open>The theorem at \<^verbatim>\<open>null\<close> and at a body that raises.\<close>

theorem never_throws_witness:
  "\<not> is_string Null \<and> processOCRText utc_host Null = [] \<and>
   raising_body ''12/25'' = Inl RangeError \<and> guarded raising_body (Str ''12/25'') = []"
proof -
  note t = never_throws[where e = utc_host and v = Null and s = "''12/25''"
      and body = raising_body and err = RangeError]
  have 1: "\<not> is_string Null" by (simp add: is_string_def)
  have 2: "raising_body ''12/25'' = Inl RangeError" by (simp add: raising_body_def)
  from t 1 have 3: "processOCRText utc_host Null = []" by blast
  from t 2 have 4: "guarded raising_body (Str ''12/25'') = []" by blast
  from 1 2 3 4 show ?thesis by blast
qed

subsection \<open>C8: slashes and dashes\<close>

text \<open>
  C8 says that \<^verbatim>\<open>parseDate\<close> reads a numeric month/day/year date the same way with slashes
  and with dashes. The formats of \<^verbatim>\<open>parseDate\<close> have the month first only with slashes;
  the one format with dashes is \<^verbatim>\<open>yyyy-MM-dd\<close>. With slashes \<^verbatim>\<open>12/05/24\<close> is read by
  \<^verbatim>\<open>MM/dd/yyyy\<close> as December 5 of the year 24; with dashes \<^verbatim>\<open>12-05-24\<close> is read by
  \<^verbatim>\<open>yyyy-MM-dd\<close> as May 24 of the year 12, on every host.
\<close>

theorem dashes_are_read_year_first:
  "parseDate e ''12/05/24'' = Some (Date (local_midnight e 24 12 5)) \<and>
   parseDate e ''12-05-24'' = Some (Date (local_midnight e 12 5 24)) \<and>
   parseDate e ''12/05/24'' \<noteq> parseDate e ''12-05-24''"
proof -
  have 1: "parseDate e ''12/05/24'' = Some (Date (local_midnight e 24 12 5))" by code_simp
  have 2: "parseDate e ''12-05-24'' = Some (Date (local_midnight e 12 5 24))" by code_simp
  have "local_midnight e 24 12 5 \<noteq> local_midnight e 12 5 24"
    by (simp add: local_midnight_def days_from_civil_def MS_PER_DAY_def)
  with 1 2 show ?thesis by simp
qed

text \<open>The two dates as \<^verbatim>\<open>format\<close> prints them on the host of the concrete runs.\<close>

theorem dashes_are_read_year_first_witness:
  "map_option (format_date utc_host) (parseDate utc_host ''12/05/24'') = Some (Inr ''0024-12-05'') \<and>
   map_option (format_date utc_host) (parseDate utc_host ''12-05-24'') = Some (Inr ''0012-05-24'')"
proof -
  have 1: "format_date utc_host (Date (local_midnight utc_host 24 12 5)) = Inr ''0024-12-05''"
    by code_simp
  have 2: "format_date utc_host (Date (local_midnight utc_host 12 5 24)) = Inr ''0012-05-24''"
    by code_simp
  from dashes_are_read_year_first[of utc_host] 1 2 show ?thesis by simp
qed

subsection \<open>C9: determinism\<close>

text \<open>
  C9 says that two calls on the same text return equal lists, the \<^verbatim>\<open>id\<close>s included. As
  amended: two calls on the same value, made at the same reading of the clock on hosts
  with the same local time and the same \<^verbatim>\<open>Date.parse\<close>, return lists that agree in the
  name, the expiry date, the added date and the confidence of every record, in the same
  order; the \<^verbatim>\<open>id\<close>s come from \<^verbatim>\<open>Math.random()\<close> and need not agree.
\<close>

theorem deterministic_up_to_id:
  assumes "now e1 = now e2" and "tz e1 = tz e2" and "implParse e1 = implParse e2"
  shows "map without_id (processOCRText e1 v) = map without_id (processOCRText e2 v)"
proof -
  from assms have "e1 = e2\<lparr>random := random e1\<rparr>" by simp
  then show ?thesis using processOCRText_random[where e = e2 and f = "random e1" and v = v] by simp
qed

text \<open>The theorem at the text \<^verbatim>\<open>milk\<close> and two hosts that differ in their random draws.\<close>

theorem deterministic_up_to_id_witness:
  "now utc_host_other_draws = now utc_host \<and> tz utc_host_other_draws = tz utc_host \<and>
   implParse utc_host_other_draws = implParse utc_host \<and>
   map without_id (processOCRText utc_host_other_draws (Str ''milk'')) =
   map without_id (processOCRText utc_host (Str ''milk''))"
proof -
  have 1: "now utc_host_other_draws = now utc_host" by (simp add: utc_host_other_draws_def)
  have 2: "tz utc_host_other_draws = tz utc_host" by (simp add: utc_host_other_draws_def)
  have 3: "implParse utc_host_other_draws = implParse utc_host"
    by (simp add: utc_host_other_draws_def)
  from deterministic_up_to_id[OF 1 2 3] 1 2 3 show ?thesis by blast
qed

text \<open>
  The claim as stated fails at the text \<^verbatim>\<open>milk\<close>: with other draws of \<^verbatim>\<open>Math.random()\<close> the
  record has another \<^verbatim>\<open>id\<close>.
\<close>

theorem random_id_counterexample:
  "processOCRText utc_host_other_draws (Str ''milk'') \<noteq> processOCRText utc_host (Str ''milk'')"
  by (simp add: run_milk run_milk_other_draws)

subsection \<open>C10: a record without an expiry date\<close>

text \<open>
  C10: for an input whose name is a string that is not empty after trimming and whose
  \<^verbatim>\<open>expiryDate\<close> is absent or the empty string, \<^verbatim>\<open>validateExtractedItem\<close> returns a record,
  and the \<^verbatim>\<open>expiryDate\<close> of that record is the empty string.
\<close>

theorem absent_expiry_passes_through:
  assumes "get_prop item ''name'' = Str n" and "trim n \<noteq> []"
    and "get_prop item ''expiryDate'' = Undefined \<or> get_prop item ''expiryDate'' = Str []"
  shows "\<exists>r. validateExtractedItem e item = Some r \<and> expiryDate r = [] \<and>
             item_name r = substring (trim n) 0 50"
proof -
  from assms(1) obtain ps where item: "item = Obj ps"
    by (cases item) (simp_all add: get_prop_def)
  from assms(2) have n: "n \<noteq> []" using trim_Nil by auto
  from assms(3) have ex: "\<not> truthy (get_prop item ''expiryDate'')"
    by (auto simp: truthy_def)
  have nm: "substring (trim n) 0 50 \<noteq> []" by (rule substring_prefix_nonempty[OF assms(2)])
  have ok: "truthy item" "is_object item" by (simp_all add: item truthy_def is_object_def)
  show ?thesis
    using assms(1) n ex nm ok by (simp add: validateExtractedItem_def Let_def)
qed

text \<open>The theorem at an object with a name and nothing else.\<close>

theorem absent_expiry_witness:
  "get_prop (Obj [(''name'', Str '' Milk '')]) ''name'' = Str '' Milk '' \<and>
   trim '' Milk '' \<noteq> [] \<and>
   get_prop (Obj [(''name'', Str '' Milk '')]) ''expiryDate'' = Undefined \<and>
   map_option expiryDate (validateExtractedItem utc_host (Obj [(''name'', Str '' Milk '')])) = Some []"
proof -
  have 1: "get_prop (Obj [(''name'', Str '' Milk '')]) ''name'' = Str '' Milk ''" by code_simp
  have 2: "trim '' Milk '' \<noteq> []" by code_simp
  have 3: "get_prop (Obj [(''name'', Str '' Milk '')]) ''expiryDate'' = Undefined" by code_simp
  from absent_expiry_passes_through[OF 1 2 disjI1[OF 3], of utc_host] 1 2 3 show ?thesis
    by auto
qed

end
